theory Spec2Isabelle
  imports Main "HOL-Library.Word" "HOL-Library.Sublist" "HOL-Library.AList" "HOL-Library.Multiset"
begin

unbundle bit_operations_syntax

text \<open>
  The feed aggregator \<open>scripts/fetch_feeds.mjs\<close>: it fetches the configured feeds,
  normalizes their entries into items, filters them by keyword, removes duplicates by
  URL, sorts by date, cuts to a limit and writes \<open>news.json\<close> and \<open>meta.json\<close>.
  The definitions follow the script function by function; the properties proved are
  those its specification states, numbered C1 to C10.
\<close>

section \<open>JavaScript strings\<close>

text \<open>
  A JavaScript string is a sequence of UTF-16 code units: \<open>length\<close>, \<open>slice\<close>,
  \<open>charCodeAt\<close> and \<open>includes\<close> all count and compare code units. A code point
  beyond U+FFFF is a surrogate pair, two code units.
\<close>

type_synonym jschar = "16 word"
type_synonym jsstring = "jschar list"

definition js :: "string \<Rightarrow> jsstring" where
  \<comment> \<open>an ASCII literal of the source\<close>
  "js s = map (\<lambda>c. of_nat (of_char c)) s"

definition truthy :: "jsstring option \<Rightarrow> bool" where
  \<comment> \<open>a string-or-null value is falsy when it is null, undefined or the empty string\<close>
  "truthy v = (case v of None \<Rightarrow> False | Some s \<Rightarrow> s \<noteq> [])"

definition orElse :: "jsstring option \<Rightarrow> jsstring option \<Rightarrow> jsstring option" where
  \<comment> \<open>the operator \<open>a || b\<close> on string-or-null values\<close>
  "orElse a b = (if truthy a then a else b)"

definition isJsSpace :: "jschar \<Rightarrow> bool" where
  \<comment> \<open>WhiteSpace and LineTerminator of ECMAScript, what \<open>trim\<close> and \<open>trimEnd\<close> remove\<close>
  "isJsSpace c = (c \<in> set [0x09, 0x0A, 0x0B, 0x0C, 0x0D, 0x20, 0xA0, 0x1680,
      0x2000, 0x2001, 0x2002, 0x2003, 0x2004, 0x2005, 0x2006, 0x2007, 0x2008, 0x2009, 0x200A,
      0x2028, 0x2029, 0x202F, 0x205F, 0x3000, 0xFEFF])"

definition trimStart :: "jsstring \<Rightarrow> jsstring" where
  "trimStart s = dropWhile isJsSpace s"

definition trimEnd :: "jsstring \<Rightarrow> jsstring" where
  "trimEnd s = rev (dropWhile isJsSpace (rev s))"

definition trim :: "jsstring \<Rightarrow> jsstring" where
  "trim s = trimEnd (trimStart s)"

definition sliceTo :: "'a list \<Rightarrow> int \<Rightarrow> 'a list" where
  \<comment> \<open>\<open>xs.slice(0, e)\<close>: a negative end counts from the end of the sequence\<close>
  "sliceTo xs e = (if e < 0 then take (nat (int (length xs) + e)) xs else take (nat e) xs)"

fun includesStr :: "jsstring \<Rightarrow> jsstring \<Rightarrow> bool" where
  \<comment> \<open>\<open>h.includes(n)\<close>: n occurs in h as a contiguous run of code units\<close>
  "includesStr [] n = (n = [])"
| "includesStr (c # cs) n = (prefix n (c # cs) \<or> includesStr cs n)"

definition nibbles :: "32 word \<Rightarrow> 32 word list" where
  \<comment> \<open>the eight hexadecimal digits of a 32-bit value, most significant first\<close>
  "nibbles h = map (\<lambda>k. drop_bit k h AND 0xF) [28, 24, 20, 16, 12, 8, 4, 0]"

definition hexChar :: "32 word \<Rightarrow> jschar" where
  \<comment> \<open>the characters 0 to 9 and a to f\<close>
  "hexChar d = (if d < 10 then 0x30 + ucast d else 0x57 + ucast d)"

definition toString16 :: "32 word \<Rightarrow> jsstring" where
  \<comment> \<open>\<open>(h >>> 0).toString(16)\<close>: lower-case hexadecimal without leading zeros, and
      \<open>0\<close> for zero\<close>
  "toString16 h =
     (case dropWhile (\<lambda>d. d = 0) (nibbles h) of
        [] \<Rightarrow> [0x30]
      | d # ds \<Rightarrow> map hexChar (d # ds))"

definition padStart :: "nat \<Rightarrow> jschar \<Rightarrow> jsstring \<Rightarrow> jsstring" where
  "padStart n c s = replicate (n - length s) c @ s"

section \<open>What the model takes from outside\<close>

text \<open>
  A parsed URL, as the WHATWG URL Standard (which node's \<open>URL\<close> class implements) keeps
  it: the serialised scheme, authority and path, the query (null, or the text after
  \<open>?\<close>), the name-value list of its \<open>searchParams\<close> object, and the fragment (null,
  or the text after \<open>#\<close>, which is the empty string for a URL that ends in \<open>#\<close>).
\<close>

record url_record =
  u_front :: jsstring
  u_query :: "jsstring option"
  u_params :: "(jsstring \<times> jsstring) list"
  u_fragment :: "jsstring option"

text \<open>
  The built-ins of the JavaScript runtime that the script calls and whose full tables
  (Unicode case mapping, date formats, URL syntax) are not part of the repository are
  parameters of the model, and so is the chain of regular-expression replacements of
  \<open>stripHtml\<close> (lines 14 to 20), on which no property below depends. Every theorem
  holds for every choice of them.
\<close>

record runtime =
  toLowerCase :: "jsstring \<Rightarrow> jsstring"
  dateParse :: "jsstring \<Rightarrow> int option"  \<comment> \<open>\<open>Date.parse\<close>; None is NaN\<close>
  toISOString :: "int \<Rightarrow> jsstring"  \<comment> \<open>\<open>new Date(t).toISOString()\<close>\<close>
  urlParse :: "jsstring \<Rightarrow> url_record option"  \<comment> \<open>\<open>new URL(s)\<close>; None is the TypeError\<close>
  formSerialize :: "(jsstring \<times> jsstring) list \<Rightarrow> jsstring"
    \<comment> \<open>the application/x-www-form-urlencoded serializer\<close>
  markupReplace :: "jsstring \<Rightarrow> jsstring"  \<comment> \<open>lines 14 to 20 of \<open>stripHtml\<close>\<close>

section \<open>The data of a run\<close>

text \<open>
  A raw entry of the feed parser: every field may be absent. \<open>raw_links\<close> is the
  \<open>links\<close> array when there is one, each element given by its \<open>url\<close> property.
\<close>

record rawEntry =
  raw_title :: "jsstring option"
  raw_link :: "jsstring option"
  raw_guid :: "jsstring option"
  raw_links :: "jsstring option list option"
  raw_isoDate :: "jsstring option"
  raw_pubDate :: "jsstring option"
  raw_published :: "jsstring option"
  raw_date :: "jsstring option"
  raw_updated :: "jsstring option"
  raw_contentSnippet :: "jsstring option"
  raw_summary :: "jsstring option"
  raw_content :: "jsstring option"
  raw_contentEncoded :: "jsstring option"

record keywordLists =
  kw_include :: "jsstring list option"
  kw_exclude :: "jsstring list option"

record feedDef =
  fd_id :: jsstring
  fd_name :: jsstring
  fd_url :: jsstring
  fd_category :: "jsstring option"
  fd_maxItemsPerFeed :: "int option"
  fd_keywords :: "keywordLists option"

record defaults =
  maxItemsPerFeed :: int
  maxTotalItems :: int
  timeoutMs :: int
  userAgent :: jsstring
  stripUrlParams :: "jsstring list"

record item =
  it_id :: jsstring
  it_title :: jsstring
  it_url :: "jsstring option"
  it_source :: jsstring
  it_sourceId :: jsstring
  it_category :: jsstring
  it_tags :: "jsstring list"
  it_published :: jsstring
  it_summary :: jsstring

record feedError =
  fe_id :: jsstring
  fe_name :: jsstring
  fe_url :: jsstring
  fe_error :: jsstring

record meta =
  generatedAt :: jsstring
  feedCount :: nat
  itemCount :: nat
  errors :: "feedError list"

text \<open>
  What a file holds: the complete JSON text of a value, or text that a failed write cut
  short. A file that does not exist is \<open>None\<close>.
\<close>

datatype 'a content = Complete 'a | Truncated

datatype writeOutcome = Succeeds | FailsBefore | FailsMidway

record disk =
  newsFile :: "item list content option"
  metaFile :: "meta content option"

definition asciiLower :: "jsstring \<Rightarrow> jsstring" where
  \<comment> \<open>\<open>toLowerCase\<close> on strings of ASCII code units, used to run examples\<close>
  "asciiLower s = map (\<lambda>c. if 0x41 \<le> c \<and> c \<le> 0x5A then c + 0x20 else c) s"

section \<open>The functions of fetch_feeds.mjs\<close>

definition stripHtml :: "runtime \<Rightarrow> jsstring option \<Rightarrow> jsstring" where
  "stripHtml rt input =
     (case input of None \<Rightarrow> []
      | Some s \<Rightarrow> if s = [] then [] else markupReplace rt s)"

definition ellipsis :: jsstring where
  \<comment> \<open>the string literal of line 26, three code units: U+00E2, U+20AC, U+00A6\<close>
  "ellipsis = [0xE2, 0x20AC, 0xA6]"

definition truncate :: "jsstring \<Rightarrow> int \<Rightarrow> jsstring" where
  "truncate s maxLen =
     (let t = trim s in
      if int (length t) \<le> maxLen then t
      else trimEnd (sliceTo t (maxLen - 1)) @ ellipsis)"

fun fnv1a_loop :: "32 word \<Rightarrow> jsstring \<Rightarrow> 32 word" where
  \<comment> \<open>\<open>h ^= str.charCodeAt(i); h = Math.imul(h, 0x01000193)\<close> for each code unit\<close>
  "fnv1a_loop h [] = h"
| "fnv1a_loop h (c # cs) = fnv1a_loop ((h XOR ucast c) * 0x01000193) cs"

definition fnv1a :: "jsstring \<Rightarrow> jsstring" where
  "fnv1a str = padStart 8 0x30 (toString16 (fnv1a_loop 0x811c9dc5 str))"

definition safeIsoDate :: "runtime \<Rightarrow> jsstring option \<Rightarrow> jsstring option" where
  "safeIsoDate rt maybeDate =
     (case maybeDate of None \<Rightarrow> None
      | Some d \<Rightarrow>
          if d = [] then None
          else (case dateParse rt d of
                  None \<Rightarrow> None
                | Some t \<Rightarrow> Some (toISOString rt t)))"

subsection \<open>cleanUrl\<close>

definition searchParams_delete :: "runtime \<Rightarrow> jsstring \<Rightarrow> url_record \<Rightarrow> url_record" where
  \<comment> \<open>remove every pair named p, then write the list back to the query; an empty
      serialisation makes the query null\<close>
  "searchParams_delete rt p u =
     (let ps = filter (\<lambda>kv. fst kv \<noteq> p) (u_params u);
          s = formSerialize rt ps
      in u\<lparr>u_params := ps, u_query := (if s = [] then None else Some s)\<rparr>)"

definition search_clear :: "url_record \<Rightarrow> url_record" where
  \<comment> \<open>\<open>u.search = ''\<close>\<close>
  "search_clear u = u\<lparr>u_query := None, u_params := []\<rparr>"

definition hash_get :: "url_record \<Rightarrow> jsstring" where
  \<comment> \<open>the getter of \<open>u.hash\<close>: empty for a null or an empty fragment, else \<open>#\<close> and the
      fragment\<close>
  "hash_get u =
     (case u_fragment u of None \<Rightarrow> []
      | Some f \<Rightarrow> if f = [] then [] else 0x23 # f)"

definition hash_clear :: "url_record \<Rightarrow> url_record" where
  \<comment> \<open>\<open>u.hash = ''\<close>\<close>
  "hash_clear u = u\<lparr>u_fragment := None\<rparr>"

definition url_toString :: "url_record \<Rightarrow> jsstring" where
  "url_toString u =
     u_front u
     @ (case u_query u of None \<Rightarrow> [] | Some q \<Rightarrow> 0x3F # q)
     @ (case u_fragment u of None \<Rightarrow> [] | Some f \<Rightarrow> 0x23 # f)"

definition cleanParsed :: "runtime \<Rightarrow> url_record \<Rightarrow> jsstring list \<Rightarrow> url_record" where
  \<comment> \<open>lines 51 to 54, on the parsed URL\<close>
  "cleanParsed rt u0 stripParams =
     (let u1 = foldl (\<lambda>u p. searchParams_delete rt p u) u0 stripParams;
          u2 = (if length (map fst (u_params u1)) = 0 then search_clear u1 else u1);
          u3 = (if hash_get u2 = [0x23] then hash_clear u2 else u2)
      in u3)"

definition cleanUrl :: "runtime \<Rightarrow> jsstring option \<Rightarrow> jsstring list \<Rightarrow> jsstring option" where
  "cleanUrl rt rawUrl stripParams =
     (case rawUrl of None \<Rightarrow> None
      | Some raw \<Rightarrow>
          if raw = [] then None
          else (case urlParse rt raw of
                  Some u \<Rightarrow> Some (url_toString (cleanParsed rt u stripParams))
                | None \<Rightarrow> Some raw))"

subsection \<open>Keyword checks\<close>

definition containsAny :: "runtime \<Rightarrow> jsstring \<Rightarrow> jsstring list option \<Rightarrow> bool" where
  "containsAny rt haystack needles =
     (case needles of None \<Rightarrow> True
      | Some ns \<Rightarrow>
          if length ns = 0 then True
          else (let h = toLowerCase rt haystack
                in list_ex (\<lambda>n. includesStr h (toLowerCase rt n)) ns))"

definition excludedByAny :: "runtime \<Rightarrow> jsstring \<Rightarrow> jsstring list option \<Rightarrow> bool" where
  "excludedByAny rt haystack excludes =
     (case excludes of None \<Rightarrow> False
      | Some ns \<Rightarrow>
          if length ns = 0 then False
          else (let h = toLowerCase rt haystack
                in list_ex (\<lambda>n. includesStr h (toLowerCase rt n)) ns))"

subsection \<open>computeTags\<close>

text \<open>
  Every rule's regular expression is an alternation of literals, some of them between
  word boundaries. An alternative is a sequence of pieces; \<open>test\<close> asks whether some
  alternative matches at some position of the text.
\<close>

datatype piece = WB | Lit jsstring

definition isWordChar :: "jschar \<Rightarrow> bool" where
  \<comment> \<open>the class \<open>\\w\<close>: A-Z, a-z, 0-9 and the underscore\<close>
  "isWordChar c = ((0x41 \<le> c \<and> c \<le> 0x5A) \<or> (0x61 \<le> c \<and> c \<le> 0x7A)
                   \<or> (0x30 \<le> c \<and> c \<le> 0x39) \<or> c = 0x5F)"

definition atBoundary :: "jsstring \<Rightarrow> nat \<Rightarrow> bool" where
  \<comment> \<open>\<open>\\b\<close> at position i: exactly one of the code units before and after i is a
      word character; beyond either end of the text there is none\<close>
  "atBoundary t i =
     ((0 < i \<and> i \<le> length t \<and> isWordChar (t ! (i - 1)))
      \<noteq> (i < length t \<and> isWordChar (t ! i)))"

definition canonicalize :: "jschar \<Rightarrow> jschar" where
  \<comment> \<open>the case folding of the flag \<open>i\<close> (without \<open>u\<close>): a-z go to A-Z. The
      patterns are ASCII, and no code unit from 128 on folds to an ASCII one, so
      leaving those as they are decides the same matches.\<close>
  "canonicalize c = (if 0x61 \<le> c \<and> c \<le> 0x7A then c - 0x20 else c)"

definition litAt :: "jsstring \<Rightarrow> jsstring \<Rightarrow> nat \<Rightarrow> bool" where
  "litAt l t i =
     list_all2 (\<lambda>p c. canonicalize p = canonicalize c) l (take (length l) (drop i t))"

fun matchSeq :: "piece list \<Rightarrow> jsstring \<Rightarrow> nat \<Rightarrow> bool" where
  "matchSeq [] t i = True"
| "matchSeq (WB # ps) t i = (atBoundary t i \<and> matchSeq ps t i)"
| "matchSeq (Lit l # ps) t i = (litAt l t i \<and> matchSeq ps t (i + length l))"

definition re_test :: "piece list list \<Rightarrow> jsstring \<Rightarrow> bool" where
  "re_test alts t =
     list_ex (\<lambda>i. list_ex (\<lambda>a. matchSeq a t i) alts) [0 ..< Suc (length t)]"

definition bounded :: "string \<Rightarrow> piece list" where
  \<comment> \<open>a literal between two word boundaries, as in \<open>\\bprivacy\\b\<close>\<close>
  "bounded s = [WB, Lit (js s), WB]"

definition plain :: "string \<Rightarrow> piece list" where
  \<comment> \<open>a literal alone, as in \<open>gdpr\<close>\<close>
  "plain s = [Lit (js s)]"

definition rules :: "(jsstring \<times> piece list list) list" where
  "rules =
   [(js ''Privacy'', [bounded ''privacy'', plain ''gdpr'', plain ''consent'', plain ''tracking'', plain ''cookie'',
        plain ''cookies'', plain ''data broker'', plain ''eprivacy'', plain ''dsa'', plain ''dma'']),
    (js ''Antitrust'', [bounded ''antitrust'', bounded ''competition'', plain ''monopoly'',
        plain ''dominant position'', plain ''merger'']),
    (js ''RTB'', [bounded ''rtb'', plain ''real-time bidding'', plain ''openrtb'', plain ''bid request'',
        plain ''bid response'', plain ''auction'']),
    (js ''Identity'', [bounded ''identity'', plain ''id-less'', plain ''idfa'', plain ''maid'', plain ''uid2'',
        plain ''ppid'']),
    (js ''Measurement'', [plain ''measurement'', plain ''attribution'', plain ''incrementality'', plain ''mmm'',
        plain ''mta'', plain ''conversion'']),
    (js ''CTV'', [bounded ''ctv'', plain ''connected tv'', bounded ''ott'', plain ''streaming'']),
    (js ''Fraud'', [plain ''fraud'', plain ''ivt'', plain ''spoofing'', plain ''ads.txt'', plain ''app-ads.txt'',
        plain ''sellers.json'']),
    (js ''AI'', [bounded ''ai'', plain ''llm'', plain ''machine learning'', plain ''generative'']),
    (js ''Policy'', [plain ''regulation'', plain ''law'', plain ''court'', plain ''enforcement'',
        plain ''settlement'', plain ''complaint'', plain ''filed'', plain ''trial''])]"

fun tagLoop :: "(jsstring \<times> piece list list) list \<Rightarrow> jsstring \<Rightarrow> jsstring list \<Rightarrow> jsstring list" where
  \<comment> \<open>\<open>for (const r of rules) if (r.re.test(t)) tags.push(r.tag)\<close>\<close>
  "tagLoop [] t tags = tags"
| "tagLoop (r # rs) t tags =
     tagLoop rs t (if re_test (snd r) t then tags @ [fst r] else tags)"

definition computeTags :: "runtime \<Rightarrow> jsstring \<Rightarrow> jsstring list" where
  "computeTags rt text = (let t = toLowerCase rt text in tagLoop rules t [])"

subsection \<open>normalizeItem\<close>

definition strOr :: "jsstring option \<Rightarrow> jsstring \<Rightarrow> jsstring" where
  \<comment> \<open>\<open>a || d\<close> where d is a string\<close>
  "strOr a d = (case a of None \<Rightarrow> d | Some s \<Rightarrow> if s = [] then d else s)"

definition pickRawLink :: "rawEntry \<Rightarrow> jsstring option" where
  \<comment> \<open>lines 147 to 150\<close>
  "pickRawLink entry =
     orElse (raw_link entry)
       (orElse (raw_guid entry)
          (case raw_links entry of
             Some (x # xs) \<Rightarrow> x
           | _ \<Rightarrow> None))"

definition pickPublished :: "runtime \<Rightarrow> rawEntry \<Rightarrow> jsstring option" where
  \<comment> \<open>lines 154 to 160\<close>
  "pickPublished rt entry =
     orElse (safeIsoDate rt (raw_isoDate entry))
       (orElse (safeIsoDate rt (raw_pubDate entry))
          (orElse (safeIsoDate rt (raw_published entry))
             (orElse (safeIsoDate rt (raw_date entry))
                (orElse (safeIsoDate rt (raw_updated entry)) None))))"

definition stableIdSeed :: "jsstring option \<Rightarrow> jsstring \<Rightarrow> jsstring \<Rightarrow> jsstring option \<Rightarrow> jsstring" where
  \<comment> \<open>line 174, from the cleaned URL, the feed id, the title and the parsed date\<close>
  "stableIdSeed url feedId title published =
     strOr url (feedId @ js ''|'' @ title @ js ''|'' @ strOr published [])"

definition normalizeItem :: "runtime \<Rightarrow> feedDef \<Rightarrow> rawEntry \<Rightarrow> jsstring list \<Rightarrow> jsstring \<Rightarrow> item" where
  \<comment> \<open>\<open>now\<close> is what \<open>new Date().toISOString()\<close> returns during this call\<close>
  "normalizeItem rt fd entry stripParams now =
     (let title = strOr (Some (stripHtml rt (Some (strOr (raw_title entry) [])))) (js ''(untitled)'');
          rawLink = pickRawLink entry;
          url = cleanUrl rt rawLink stripParams;
          published = pickPublished rt entry;
          rawSummary =
            strOr (raw_contentSnippet entry)
              (strOr (raw_summary entry)
                 (strOr (raw_content entry)
                    (strOr (raw_contentEncoded entry) [])));
          summary = truncate (stripHtml rt (Some rawSummary)) 280;
          combinedText = title @ js '' '' @ summary;
          tags = computeTags rt combinedText;
          id = fnv1a (stableIdSeed url (fd_id fd) title published)
      in \<lparr>it_id = id, it_title = title, it_url = url, it_source = fd_name fd,
          it_sourceId = fd_id fd, it_category = strOr (fd_category fd) (js ''Uncategorized''),
          it_tags = tags, it_published = strOr published now, it_summary = summary\<rparr>)"

subsection \<open>main: the loop over the feeds\<close>

text \<open>
  What \<open>parseFeedFromUrl\<close> does for one feed in this run: it throws (the string is
  \<open>e?.message || String(e)\<close>), or it returns a parsed feed whose \<open>items\<close> may or
  may not be an array. Each raw entry comes with the reading of the clock at the moment
  it is normalised.
\<close>

datatype fetched = Failed jsstring | Parsed "(rawEntry \<times> jsstring) list option"

definition listNonEmpty :: "'a list option \<Rightarrow> bool" where
  \<comment> \<open>\<open>xs && xs.length > 0\<close>\<close>
  "listNonEmpty xs = (case xs of None \<Rightarrow> False | Some ys \<Rightarrow> 0 < length ys)"

definition passesKeywords :: "runtime \<Rightarrow> jsstring list option \<Rightarrow> jsstring list option \<Rightarrow> jsstring \<Rightarrow> bool" where
  \<comment> \<open>lines 218 and 219: False where the loop says \<open>continue\<close>\<close>
  "passesKeywords rt include exclude text =
     (if listNonEmpty include \<and> \<not> containsAny rt text include then False
      else if listNonEmpty exclude \<and> excludedByAny rt text exclude then False
      else True)"

definition survives :: "runtime \<Rightarrow> jsstring list option \<Rightarrow> jsstring list option \<Rightarrow> item \<Rightarrow> bool" where
  \<comment> \<open>lines 215 to 219\<close>
  "survives rt include exclude n =
     (if \<not> truthy (it_url n) then False
      else (let text = it_title n @ js '' '' @ it_summary n
            in passesKeywords rt include exclude text))"

fun normalizeLoop :: "runtime \<Rightarrow> feedDef \<Rightarrow> jsstring list \<Rightarrow> jsstring list option \<Rightarrow> jsstring list option
    \<Rightarrow> (rawEntry \<times> jsstring) list \<Rightarrow> item list \<Rightarrow> item list" where
  \<comment> \<open>lines 213 to 222\<close>
  "normalizeLoop rt fd sp include exclude [] normalized = normalized"
| "normalizeLoop rt fd sp include exclude (e # rest) normalized =
     (let n = normalizeItem rt fd (fst e) sp (snd e)
      in normalizeLoop rt fd sp include exclude rest
           (if survives rt include exclude n then normalized @ [n] else normalized))"

definition feedInclude :: "feedDef \<Rightarrow> jsstring list option" where
  \<comment> \<open>\<open>feedDef.keywords?.include || null\<close>\<close>
  "feedInclude fd = (case fd_keywords fd of None \<Rightarrow> None | Some k \<Rightarrow> kw_include k)"

definition feedExclude :: "feedDef \<Rightarrow> jsstring list option" where
  "feedExclude fd = (case fd_keywords fd of None \<Rightarrow> None | Some k \<Rightarrow> kw_exclude k)"

definition feedItems :: "runtime \<Rightarrow> defaults \<Rightarrow> feedDef \<Rightarrow> (rawEntry \<times> jsstring) list option \<Rightarrow> item list" where
  \<comment> \<open>the body of the \<open>try\<close>, lines 202 and 207 to 222: the items one parsed feed adds\<close>
  "feedItems rt dflt fd parsedItems =
     (let maxItems = (case fd_maxItemsPerFeed fd of Some m \<Rightarrow> m | None \<Rightarrow> maxItemsPerFeed dflt);
          items = (case parsedItems of Some xs \<Rightarrow> xs | None \<Rightarrow> [])
      in normalizeLoop rt fd (stripUrlParams dflt) (feedInclude fd) (feedExclude fd)
           (sliceTo items maxItems) [])"

definition feedStep :: "runtime \<Rightarrow> defaults \<Rightarrow> item list \<times> feedError list \<Rightarrow> feedDef \<times> fetched
    \<Rightarrow> item list \<times> feedError list" where
  \<comment> \<open>one round of the loop of lines 201 to 233, on the pair (all, errors)\<close>
  "feedStep rt dflt acc f =
     (case snd f of
        Parsed parsedItems \<Rightarrow> (fst acc @ feedItems rt dflt (fst f) parsedItems, snd acc)
      | Failed msg \<Rightarrow>
          (fst acc,
           snd acc @ [\<lparr>fe_id = fd_id (fst f), fe_name = fd_name (fst f),
                       fe_url = fd_url (fst f), fe_error = msg\<rparr>]))"

definition collect :: "runtime \<Rightarrow> defaults \<Rightarrow> (feedDef \<times> fetched) list \<Rightarrow> item list \<times> feedError list" where
  "collect rt dflt feeds = foldl (feedStep rt dflt) ([], []) feeds"

subsection \<open>main: dedupe, sort, limit\<close>

definition ts :: "runtime \<Rightarrow> item \<Rightarrow> int" where
  \<comment> \<open>\<open>Date.parse(it.published) || 0\<close>\<close>
  "ts rt it = (case dateParse rt (it_published it) of None \<Rightarrow> 0 | Some t \<Rightarrow> if t = 0 then 0 else t)"

text \<open>
  The \<open>Map\<close> keeps its keys in the order of their first insertion, and \<open>set\<close> on a
  key it has already replaces the value in place: an association list with
  \<open>AList.update\<close>.
\<close>

definition dedupeStep :: "runtime \<Rightarrow> (jsstring option \<times> item) list \<Rightarrow> item \<Rightarrow> (jsstring option \<times> item) list" where
  \<comment> \<open>lines 238 to 246\<close>
  "dedupeStep rt byUrl it =
     (let key = it_url it in
      case map_of byUrl key of
        None \<Rightarrow> AList.update key it byUrl
      | Some existing \<Rightarrow>
          (let tNew = ts rt it; tOld = ts rt existing
           in if tNew \<ge> tOld then AList.update key it byUrl else byUrl))"

definition dedupe :: "runtime \<Rightarrow> item list \<Rightarrow> item list" where
  \<comment> \<open>lines 236 to 249\<close>
  "dedupe rt all = map snd (foldl (dedupeStep rt) [] all)"

definition newestFirst :: "runtime \<Rightarrow> item \<Rightarrow> item \<Rightarrow> int" where
  \<comment> \<open>the comparator of line 252\<close>
  "newestFirst rt a b = ts rt b - ts rt a"

text \<open>
  \<open>Array.prototype.sort\<close> is stable, and this comparator is a consistent order, so the
  result is the one sorted arrangement that keeps equal items in their input order. An
  insertion sort that puts an item before the first one it does not have to follow
  computes it.
\<close>

fun insertBy :: "('a \<Rightarrow> 'a \<Rightarrow> int) \<Rightarrow> 'a \<Rightarrow> 'a list \<Rightarrow> 'a list" where
  "insertBy cmp x [] = [x]"
| "insertBy cmp x (y # ys) = (if cmp x y \<le> 0 then x # y # ys else y # insertBy cmp x ys)"

definition sortBy :: "('a \<Rightarrow> 'a \<Rightarrow> int) \<Rightarrow> 'a list \<Rightarrow> 'a list" where
  "sortBy cmp xs = foldr (insertBy cmp) xs []"

definition rank :: "runtime \<Rightarrow> int \<Rightarrow> item list \<Rightarrow> item list" where
  \<comment> \<open>lines 252 and 255\<close>
  "rank rt maxTotal deduped = sliceTo (sortBy (newestFirst rt) deduped) maxTotal"

definition mainOutput :: "runtime \<Rightarrow> defaults \<Rightarrow> (feedDef \<times> fetched) list \<Rightarrow> jsstring \<Rightarrow> item list \<times> meta" where
  \<comment> \<open>lines 198 to 262; \<open>genAt\<close> is the clock reading of line 258\<close>
  "mainOutput rt dflt feeds genAt =
     (let collected = collect rt dflt feeds;
          deduped = dedupe rt (fst collected);
          limited = rank rt (maxTotalItems dflt) deduped
      in (limited,
          \<lparr>generatedAt = genAt, feedCount = length feeds, itemCount = length limited,
           errors = snd collected\<rparr>))"

subsection \<open>main: writing the two files\<close>

text \<open>
  \<open>fs.writeFile\<close> either writes the whole text, or fails before it touched the file,
  or fails after it emptied the file and wrote a part. A failure rejects the promise,
  \<open>main\<close> stops there, and the process exits with status 1.
\<close>

definition writeNews :: "disk \<Rightarrow> item list \<Rightarrow> writeOutcome \<Rightarrow> disk" where
  "writeNews d v out =
     (case out of
        Succeeds \<Rightarrow> d\<lparr>newsFile := Some (Complete v)\<rparr>
      | FailsBefore \<Rightarrow> d
      | FailsMidway \<Rightarrow> d\<lparr>newsFile := Some Truncated\<rparr>)"

definition writeMeta :: "disk \<Rightarrow> meta \<Rightarrow> writeOutcome \<Rightarrow> disk" where
  "writeMeta d v out =
     (case out of
        Succeeds \<Rightarrow> d\<lparr>metaFile := Some (Complete v)\<rparr>
      | FailsBefore \<Rightarrow> d
      | FailsMidway \<Rightarrow> d\<lparr>metaFile := Some Truncated\<rparr>)"

definition writeArtifacts :: "disk \<Rightarrow> item list \<times> meta \<Rightarrow> writeOutcome \<Rightarrow> writeOutcome \<Rightarrow> disk \<times> bool" where
  \<comment> \<open>lines 264 and 265; the flag says whether \<open>main\<close> got past both writes\<close>
  "writeArtifacts d output out1 out2 =
     (let d1 = writeNews d (fst output) out1 in
      if out1 \<noteq> Succeeds then (d1, False)
      else (let d2 = writeMeta d1 (snd output) out2
            in (d2, out2 = Succeeds)))"

definition run :: "runtime \<Rightarrow> defaults \<Rightarrow> (feedDef \<times> fetched) list \<Rightarrow> jsstring \<Rightarrow> disk
    \<Rightarrow> writeOutcome \<Rightarrow> writeOutcome \<Rightarrow> disk \<times> bool" where
  "run rt dflt feeds genAt d out1 out2 =
     writeArtifacts d (mainOutput rt dflt feeds genAt) out1 out2"

section \<open>Well-formed UTF-16\<close>

text \<open>
  A string is well formed when its surrogate code units come in pairs, a high one
  followed by a low one: no code point is cut.
\<close>

definition isHighSurrogate :: "jschar \<Rightarrow> bool" where
  "isHighSurrogate c = (0xD800 \<le> c \<and> c \<le> 0xDBFF)"

definition isLowSurrogate :: "jschar \<Rightarrow> bool" where
  "isLowSurrogate c = (0xDC00 \<le> c \<and> c \<le> 0xDFFF)"

fun wellFormedUtf16 :: "jsstring \<Rightarrow> bool" where
  "wellFormedUtf16 [] = True"
| "wellFormedUtf16 [c] = (\<not> isHighSurrogate c \<and> \<not> isLowSurrogate c)"
| "wellFormedUtf16 (c # d # cs) =
     (if isHighSurrogate c then isLowSurrogate d \<and> wellFormedUtf16 cs
      else \<not> isLowSurrogate c \<and> wellFormedUtf16 (d # cs))"

section \<open>The survivor of a URL\<close>

text \<open>
  Position i of the collected items holds the survivor of its URL when no item with the
  same URL is newer and none that is as new comes later in the list.
\<close>

definition latestNewest :: "runtime \<Rightarrow> item list \<Rightarrow> nat \<Rightarrow> bool" where
  "latestNewest rt xs i \<longleftrightarrow>
     i < length xs
     \<and> (\<forall>j<length xs. it_url (xs ! j) = it_url (xs ! i)
            \<longrightarrow> ts rt (xs ! j) \<le> ts rt (xs ! i)
                \<and> (ts rt (xs ! j) = ts rt (xs ! i) \<longrightarrow> j \<le> i))"

text \<open>
  The invariant of the dedupe loop: after the items xs, the map holds for every URL seen
  its survivor among xs, and nothing for any other URL.
\<close>

definition winners :: "runtime \<Rightarrow> item list \<Rightarrow> (jsstring option \<rightharpoonup> item) \<Rightarrow> bool" where
  "winners rt xs m \<longleftrightarrow>
     (\<forall>k. case m k of
            None \<Rightarrow> \<forall>j<length xs. it_url (xs ! j) \<noteq> k
          | Some v \<Rightarrow> it_url v = k \<and> (\<exists>i. latestNewest rt xs i \<and> xs ! i = v))"

section \<open>What one feed adds\<close>

text \<open>
  One round of the loop over the feeds appends to the two lists. These are the two
  pieces it appends, as functions of the feed and of what fetching it gave.
\<close>

definition feedItemsOf :: "runtime \<Rightarrow> defaults \<Rightarrow> feedDef \<times> fetched \<Rightarrow> item list" where
  "feedItemsOf rt dflt f =
     (case snd f of Parsed p \<Rightarrow> feedItems rt dflt (fst f) p | Failed msg \<Rightarrow> [])"

definition feedErrorsOf :: "feedDef \<times> fetched \<Rightarrow> feedError list" where
  "feedErrorsOf f =
     (case snd f of Parsed p \<Rightarrow> []
      | Failed msg \<Rightarrow> [\<lparr>fe_id = fd_id (fst f), fe_name = fd_name (fst f),
                           fe_url = fd_url (fst f), fe_error = msg\<rparr>])"

section \<open>Example inputs\<close>

text \<open>
  A runtime to run examples on: it lower-cases ASCII, and knows the dates and URLs the
  examples use, with the values node gives for them.
\<close>

fun exampleSerialize :: "(jsstring \<times> jsstring) list \<Rightarrow> jsstring" where
  "exampleSerialize [] = []"
| "exampleSerialize [kv] = fst kv @ js ''='' @ snd kv"
| "exampleSerialize (kv # rest) = fst kv @ js ''='' @ snd kv @ js ''&'' @ exampleSerialize rest"

definition exampleUrlParse :: "jsstring \<Rightarrow> url_record option" where
  "exampleUrlParse s =
     (if s = js ''https://example.com/a'' then
        Some \<lparr>u_front = js ''https://example.com/a'', u_query = None, u_params = [],
              u_fragment = None\<rparr>
      else if s = js ''https://example.com/a?utm_source=x'' then
        Some \<lparr>u_front = js ''https://example.com/a'', u_query = Some (js ''utm_source=x''),
              u_params = [(js ''utm_source'', js ''x'')], u_fragment = None\<rparr>
      else if s = js ''https://example.com/a#'' then
        Some \<lparr>u_front = js ''https://example.com/a'', u_query = None, u_params = [],
              u_fragment = Some []\<rparr>
      else if s = js ''https://example.com/b'' then
        Some \<lparr>u_front = js ''https://example.com/b'', u_query = None, u_params = [],
              u_fragment = None\<rparr>
      else None)"

definition exampleDateParse :: "jsstring \<Rightarrow> int option" where
  "exampleDateParse s =
     (if s = js ''2024-01-01T00:00:00.000Z'' then Some 1704067200000
      else if s = js ''2024-01-02T00:00:00.000Z'' then Some 1704153600000
      else if s = js ''2024-01-03T00:00:00.000Z'' then Some 1704240000000
      else if s = js ''2024-01-04T00:00:00.000Z'' then Some 1704326400000
      else if s = js ''2024-01-05T00:00:00.000Z'' then Some 1704412800000
      else None)"

definition exampleToISOString :: "int \<Rightarrow> jsstring" where
  "exampleToISOString t =
     (if t = 1704067200000 then js ''2024-01-01T00:00:00.000Z''
      else if t = 1704153600000 then js ''2024-01-02T00:00:00.000Z''
      else if t = 1704240000000 then js ''2024-01-03T00:00:00.000Z''
      else if t = 1704326400000 then js ''2024-01-04T00:00:00.000Z''
      else if t = 1704412800000 then js ''2024-01-05T00:00:00.000Z''
      else js ''1970-01-01T00:00:00.000Z'')"

definition exampleRuntime :: runtime where
  "exampleRuntime =
     \<lparr>toLowerCase = asciiLower, dateParse = exampleDateParse, toISOString = exampleToISOString,
      urlParse = exampleUrlParse, formSerialize = exampleSerialize,
      markupReplace = (\<lambda>s. s)\<rparr>"

definition emptyEntry :: rawEntry where
  "emptyEntry = \<lparr>raw_title = None, raw_link = None, raw_guid = None, raw_links = None,
     raw_isoDate = None, raw_pubDate = None, raw_published = None, raw_date = None,
     raw_updated = None, raw_contentSnippet = None, raw_summary = None, raw_content = None,
     raw_contentEncoded = None\<rparr>"

definition exampleFeed :: "string \<Rightarrow> feedDef" where
  "exampleFeed name = \<lparr>fd_id = js name, fd_name = js name, fd_url = js ''https://example.com/feed'',
     fd_category = None, fd_maxItemsPerFeed = None, fd_keywords = None\<rparr>"

definition exampleDefaults :: defaults where
  "exampleDefaults = \<lparr>maxItemsPerFeed = 40, maxTotalItems = 700, timeoutMs = 25000,
     userAgent = js ''AdAuctionNewsBot/1.0 (+https://github.com/)'',
     stripUrlParams = [js ''utm_source'']\<rparr>"

definition linkEntry :: "string \<Rightarrow> rawEntry" where
  "linkEntry u = emptyEntry\<lparr>raw_link := Some (js u)\<rparr>"

definition exampleItem :: "string \<Rightarrow> string \<Rightarrow> string \<Rightarrow> item" where
  "exampleItem t u p = \<lparr>it_id = fnv1a (js u), it_title = js t, it_url = Some (js u),
     it_source = js ''a'', it_sourceId = js ''a'', it_category = js ''Uncategorized'',
     it_tags = [], it_published = js p, it_summary = []\<rparr>"

definition oldDisk :: disk where
  "oldDisk = \<lparr>newsFile = Some (Complete [exampleItem ''a'' ''https://example.com/a'' ''2024-01-01T00:00:00.000Z'']),
     metaFile = Some (Complete \<lparr>generatedAt = js ''2024-01-02T00:00:00.000Z'', feedCount = 1,
       itemCount = 1, errors = []\<rparr>)\<rparr>"

section \<open>Stable identifiers\<close>

lemma js_Nil_iff [simp]: "js s = [] \<longleftrightarrow> s = []"
  by (simp add: js_def)

lemma normalizeItem_url: "it_url (normalizeItem rt fd e sp now) = cleanUrl rt (pickRawLink e) sp"
  by (simp add: normalizeItem_def Let_def)

lemma normalizeItem_title:
  "it_title (normalizeItem rt fd e sp now) =
     strOr (Some (stripHtml rt (Some (strOr (raw_title e) [])))) (js ''(untitled)'')"
  by (simp add: normalizeItem_def Let_def)

lemma normalizeItem_id:
  "it_id (normalizeItem rt fd e sp now) =
     fnv1a (stableIdSeed (it_url (normalizeItem rt fd e sp now)) (fd_id fd)
              (it_title (normalizeItem rt fd e sp now)) (pickPublished rt e))"
  by (simp add: normalizeItem_def Let_def)

lemma normalizeItem_summary:
  "it_summary (normalizeItem rt fd e sp now) =
     truncate (stripHtml rt (Some (strOr (raw_contentSnippet e) (strOr (raw_summary e)
        (strOr (raw_content e) (strOr (raw_contentEncoded e) [])))))) 280"
  by (simp add: normalizeItem_def Let_def)

lemma toString16_length: "1 \<le> length (toString16 h) \<and> length (toString16 h) \<le> 8"
proof -
  have "length (dropWhile (\<lambda>d. d = 0) (nibbles h)) \<le> length (nibbles h)"
    by (rule length_dropWhile_le)
  then have "length (dropWhile (\<lambda>d. d = 0) (nibbles h)) \<le> 8"
    by (simp add: nibbles_def)
  then show ?thesis
    by (auto simp: toString16_def split: list.splits)
qed

lemma fnv1a_length: "length (fnv1a s) = 8"
  using toString16_length [of "fnv1a_loop 0x811c9dc5 s"] by (simp add: fnv1a_def padStart_def)

lemma fnv1a_test_vectors:
  "fnv1a [] = js ''811c9dc5''"
  "fnv1a (js ''a'') = js ''e40c292c''"
  "fnv1a (js ''foobar'') = js ''bf9cf968''"
  by (simp_all add: fnv1a_def padStart_def toString16_def nibbles_def hexChar_def js_def)

lemma padStart_example: "padStart 8 0x30 (toString16 0x00000abc) = js ''00000abc''"
proof -
  have "toString16 0x00000abc = js ''abc''"
    by (simp add: toString16_def nibbles_def hexChar_def js_def)
  then show ?thesis
    by (simp add: padStart_def js_def eval_nat_numeral)
qed

lemma seed_of_url: "truthy u \<Longrightarrow> stableIdSeed u f t p = the u"
  by (auto simp: stableIdSeed_def strOr_def truthy_def split: option.splits)

lemma seed_no_url: "\<not> truthy u \<Longrightarrow> stableIdSeed u f t p = f @ js ''|'' @ t @ js ''|'' @ strOr p []"
  by (auto simp: stableIdSeed_def strOr_def truthy_def split: option.splits)

text \<open>
  C1. The identifier of a normalized item is the FNV-1a hash of its seed and of nothing
  else. Two normalized items, from any feeds, raw entries, parameter lists and clock
  readings, that have the same canonical URL have the same identifier, which is the hash
  of that URL; two items without a URL that agree on feed id, title and parsed
  publication date (empty when no date parsed) have the same identifier; and the
  identifier of an entry does not depend on the clock reading of the run.
\<close>

theorem stable_id_deterministic:
  "(let a = normalizeItem rt1 fd1 e1 sp1 now1; b = normalizeItem rt2 fd2 e2 sp2 now2 in
     (truthy (it_url a) \<and> it_url a = it_url b
        \<longrightarrow> it_id a = it_id b \<and> it_id a = fnv1a (the (it_url a)))
     \<and> (\<not> truthy (it_url a) \<and> \<not> truthy (it_url b) \<and> fd_id fd1 = fd_id fd2
            \<and> it_title a = it_title b
            \<and> strOr (pickPublished rt1 e1) [] = strOr (pickPublished rt2 e2) []
          \<longrightarrow> it_id a = it_id b)
     \<and> it_id (normalizeItem rt1 fd1 e1 sp1 now3) = it_id a)"
proof -
  define a where "a = normalizeItem rt1 fd1 e1 sp1 now1"
  define b where "b = normalizeItem rt2 fd2 e2 sp2 now2"
  have ida: "it_id a = fnv1a (stableIdSeed (it_url a) (fd_id fd1) (it_title a) (pickPublished rt1 e1))"
    unfolding a_def by (rule normalizeItem_id)
  have idb: "it_id b = fnv1a (stableIdSeed (it_url b) (fd_id fd2) (it_title b) (pickPublished rt2 e2))"
    unfolding b_def by (rule normalizeItem_id)
  have with_url: "it_id a = it_id b \<and> it_id a = fnv1a (the (it_url a))"
    if "truthy (it_url a)" "it_url a = it_url b"
    using that by (simp add: ida idb seed_of_url)
  have without_url: "it_id a = it_id b"
    if "\<not> truthy (it_url a)" "\<not> truthy (it_url b)" "fd_id fd1 = fd_id fd2"
       "it_title a = it_title b"
       "strOr (pickPublished rt1 e1) [] = strOr (pickPublished rt2 e2) []"
    using that by (simp add: ida idb seed_no_url)
  have clock: "it_id (normalizeItem rt1 fd1 e1 sp1 now3) = it_id a"
    unfolding a_def by (simp add: normalizeItem_id normalizeItem_url normalizeItem_title)
  show ?thesis
    unfolding Let_def a_def [symmetric] b_def [symmetric]
    using with_url without_url clock by blast
qed

lemma ex1: "cleanUrl exampleRuntime (Some (js ''https://example.com/a?utm_source=x'')) [js ''utm_source'']
   = Some (js ''https://example.com/a'')"
  by (simp add: cleanUrl_def exampleRuntime_def exampleUrlParse_def js_def cleanParsed_def
      searchParams_delete_def search_clear_def hash_get_def hash_clear_def url_toString_def)

lemma ex2: "cleanUrl exampleRuntime (Some (js ''https://example.com/a'')) [js ''utm_source'']
   = Some (js ''https://example.com/a'')"
  by (simp add: cleanUrl_def exampleRuntime_def exampleUrlParse_def js_def cleanParsed_def
      searchParams_delete_def search_clear_def hash_get_def hash_clear_def url_toString_def)

theorem stable_id_deterministic_witness:
  "(let a = normalizeItem exampleRuntime (exampleFeed ''f1'')
              (emptyEntry\<lparr>raw_link := Some (js ''https://example.com/a?utm_source=x'')\<rparr>)
              [js ''utm_source''] (js ''2024-01-01T00:00:00.000Z'');
        b = normalizeItem exampleRuntime (exampleFeed ''f2'')
              (emptyEntry\<lparr>raw_guid := Some (js ''https://example.com/a'')\<rparr>)
              [js ''utm_source''] (js ''2024-01-05T00:00:00.000Z'')
    in truthy (it_url a) \<and> it_url a = it_url b \<and> it_id a = it_id b)"
proof -
  let ?a = "normalizeItem exampleRuntime (exampleFeed ''f1'')
              (emptyEntry\<lparr>raw_link := Some (js ''https://example.com/a?utm_source=x'')\<rparr>)
              [js ''utm_source''] (js ''2024-01-01T00:00:00.000Z'')"
  let ?b = "normalizeItem exampleRuntime (exampleFeed ''f2'')
              (emptyEntry\<lparr>raw_guid := Some (js ''https://example.com/a'')\<rparr>)
              [js ''utm_source''] (js ''2024-01-05T00:00:00.000Z'')"
  have ua: "it_url ?a = Some (js ''https://example.com/a'')"
    by (simp add: normalizeItem_url pickRawLink_def emptyEntry_def orElse_def truthy_def ex1)
  have ub: "it_url ?b = Some (js ''https://example.com/a'')"
    by (simp add: normalizeItem_url pickRawLink_def emptyEntry_def orElse_def truthy_def ex2)
  have t: "truthy (it_url ?a)" by (simp add: ua truthy_def)
  show ?thesis
    using stable_id_deterministic [of exampleRuntime "exampleFeed ''f1''"
        "emptyEntry\<lparr>raw_link := Some (js ''https://example.com/a?utm_source=x'')\<rparr>"
        "[js ''utm_source'']" "js ''2024-01-01T00:00:00.000Z''"
        exampleRuntime "exampleFeed ''f2''"
        "emptyEntry\<lparr>raw_guid := Some (js ''https://example.com/a'')\<rparr>"
        "[js ''utm_source'']" "js ''2024-01-05T00:00:00.000Z''" "js ''2024-01-03T00:00:00.000Z''"] t ua ub
    by (simp add: Let_def)
qed

section \<open>Deduplication\<close>

lemma latestNewest_other:
  "latestNewest rt xs i \<Longrightarrow> it_url x \<noteq> it_url (xs ! i) \<Longrightarrow> latestNewest rt (xs @ [x]) i"
  by (auto simp: latestNewest_def nth_append less_Suc_eq)

lemma latestNewest_older:
  "latestNewest rt xs i \<Longrightarrow> ts rt x < ts rt (xs ! i) \<Longrightarrow> latestNewest rt (xs @ [x]) i"
  by (auto simp: latestNewest_def nth_append less_Suc_eq)

lemma latestNewest_replaced:
  "latestNewest rt xs i \<Longrightarrow> it_url x = it_url (xs ! i) \<Longrightarrow> ts rt (xs ! i) \<le> ts rt x
     \<Longrightarrow> latestNewest rt (xs @ [x]) (length xs)"
  by (fastforce simp: latestNewest_def nth_append less_Suc_eq)

lemma latestNewest_first:
  "\<forall>j<length xs. it_url (xs ! j) \<noteq> it_url x \<Longrightarrow> latestNewest rt (xs @ [x]) (length xs)"
  by (auto simp: latestNewest_def nth_append less_Suc_eq)

lemma map_of_dedupeStep:
  "map_of (dedupeStep rt b x) =
     (case map_of b (it_url x) of
        None \<Rightarrow> (map_of b)(it_url x \<mapsto> x)
      | Some e \<Rightarrow> if ts rt e \<le> ts rt x then (map_of b)(it_url x \<mapsto> x) else map_of b)"
  by (simp add: dedupeStep_def Let_def update_conv' split: option.splits)

lemma distinct_dedupeStep:
  "distinct (map fst b) \<Longrightarrow> distinct (map fst (dedupeStep rt b x))"
  by (simp add: dedupeStep_def Let_def distinct_update split: option.splits)

lemma distinct_byUrl: "distinct (map fst (foldl (dedupeStep rt) [] xs))"
  by (induction xs rule: rev_induct) (simp_all add: distinct_dedupeStep)

lemma winners_None: "winners rt xs m \<Longrightarrow> m k = None \<Longrightarrow> j < length xs \<Longrightarrow> it_url (xs ! j) \<noteq> k"
  unfolding winners_def by (erule allE [of _ k]) simp

lemma winners_Some:
  "winners rt xs m \<Longrightarrow> m k = Some v \<Longrightarrow> it_url v = k \<and> (\<exists>i. latestNewest rt xs i \<and> xs ! i = v)"
  unfolding winners_def by (erule allE [of _ k]) simp

lemma winners_step:
  assumes W: "winners rt xs m"
  shows "winners rt (xs @ [x])
           (case m (it_url x) of
              None \<Rightarrow> m(it_url x \<mapsto> x)
            | Some e \<Rightarrow> if ts rt e \<le> ts rt x then m(it_url x \<mapsto> x) else m)"
    (is "winners rt ?ys ?m'")
  unfolding winners_def
proof
  fix k
  have last: "?ys ! length xs = x" by simp
  have keep: "\<exists>i. latestNewest rt ?ys i \<and> ?ys ! i = v"
    if "m k = Some v" "k \<noteq> it_url x" for v
  proof -
    from winners_Some [OF W that(1)] obtain i where
      i: "it_url v = k" "latestNewest rt xs i" "xs ! i = v" by blast
    then have "latestNewest rt ?ys i" using that(2) by (intro latestNewest_other) auto
    moreover have "?ys ! i = v" using i by (simp add: latestNewest_def nth_append)
    ultimately show ?thesis by blast
  qed
  show "case ?m' k of
          None \<Rightarrow> \<forall>j<length ?ys. it_url (?ys ! j) \<noteq> k
        | Some v \<Rightarrow> it_url v = k \<and> (\<exists>i. latestNewest rt ?ys i \<and> ?ys ! i = v)"
  proof (cases "k = it_url x")
    case False
    then have mk: "?m' k = m k" by (simp split: option.splits)
    show ?thesis
    proof (cases "m k")
      case None
      then show ?thesis
        using winners_None [OF W None] False by (auto simp: mk nth_append less_Suc_eq)
    next
      case (Some v)
      then show ?thesis
        using winners_Some [OF W Some] keep [OF Some False] by (simp add: mk)
    qed
  next
    case True
    show ?thesis
    proof (cases "m (it_url x)")
      case None
      then have "?m' k = Some x" using True by simp
      moreover have "latestNewest rt ?ys (length xs)"
        using winners_None [OF W None] by (intro latestNewest_first) blast
      ultimately show ?thesis using True last by auto
    next
      case (Some e)
      from winners_Some [OF W Some] obtain i where
        i: "it_url e = it_url x" "latestNewest rt xs i" "xs ! i = e" by blast
      show ?thesis
      proof (cases "ts rt e \<le> ts rt x")
        case le: True
        then have "?m' k = Some x" using True Some by simp
        moreover have "latestNewest rt ?ys (length xs)"
          using i le by (intro latestNewest_replaced [of rt xs i]) auto
        ultimately show ?thesis using True last by auto
      next
        case gt: False
        then have "?m' k = Some e" using True Some by simp
        moreover have "latestNewest rt ?ys i"
          using i gt by (intro latestNewest_older) auto
        moreover have "?ys ! i = e" using i by (simp add: latestNewest_def nth_append)
        ultimately show ?thesis using True i(1) by auto
      qed
    qed
  qed
qed

lemma winners_byUrl: "winners rt xs (map_of (foldl (dedupeStep rt) [] xs))"
proof (induction xs rule: rev_induct)
  case Nil
  show ?case by (simp add: winners_def)
next
  case (snoc x xs)
  show ?case
    using winners_step [OF snoc.IH, of x]
    by (simp only: foldl_append foldl.simps map_of_dedupeStep)
qed

lemma byUrl_keyed:
  assumes "(k, v) \<in> set (foldl (dedupeStep rt) [] xs)"
  shows "it_url v = k \<and> (\<exists>i. latestNewest rt xs i \<and> xs ! i = v)"
proof -
  have "map_of (foldl (dedupeStep rt) [] xs) k = Some v"
    using assms distinct_byUrl by simp
  then show ?thesis by (rule winners_Some [OF winners_byUrl])
qed

lemma dedupe_urls: "map it_url (dedupe rt xs) = map fst (foldl (dedupeStep rt) [] xs)"
  unfolding dedupe_def map_map
  by (rule map_cong [OF refl]) (auto dest: byUrl_keyed)

lemma byUrl_keys: "fst ` set (foldl (dedupeStep rt) [] xs) = it_url ` set xs"
proof (intro set_eqI iffI)
  fix k assume "k \<in> fst ` set (foldl (dedupeStep rt) [] xs)"
  then obtain v where "(k, v) \<in> set (foldl (dedupeStep rt) [] xs)" by auto
  from byUrl_keyed [OF this] show "k \<in> it_url ` set xs"
    by (auto simp: latestNewest_def)
next
  fix k assume "k \<in> it_url ` set xs"
  then obtain j where j: "j < length xs" "it_url (xs ! j) = k"
    by (auto simp: in_set_conv_nth)
  have "map_of (foldl (dedupeStep rt) [] xs) k \<noteq> None"
    using winners_None [OF winners_byUrl _ j(1)] j(2) by blast
  then show "k \<in> fst ` set (foldl (dedupeStep rt) [] xs)"
    by (simp add: map_of_eq_None_iff)
qed

text \<open>
  C2. Deduplication returns exactly one item for each URL among the collected items: the
  URLs of the result are distinct and are those of the input. Each item of the result is
  the survivor of its URL: an item of the input than which no item with the same URL has a
  greater timestamp, and after which no item with the same URL has an equal one. A
  publication date that does not parse counts as timestamp 0.
\<close>

theorem dedupe_one_per_url:
  "distinct (map it_url (dedupe rt all))
   \<and> set (map it_url (dedupe rt all)) = set (map it_url all)
   \<and> (\<forall>v\<in>set (dedupe rt all). \<exists>i. latestNewest rt all i \<and> all ! i = v)
   \<and> (\<forall>v. dateParse rt (it_published v) = None \<longrightarrow> ts rt v = 0)"
proof (intro conjI ballI allI impI)
  show "distinct (map it_url (dedupe rt all))"
    unfolding dedupe_urls by (rule distinct_byUrl)
  show "set (map it_url (dedupe rt all)) = set (map it_url all)"
    unfolding dedupe_urls using byUrl_keys [of rt all] by simp
next
  fix v assume "v \<in> set (dedupe rt all)"
  then obtain k where "(k, v) \<in> set (foldl (dedupeStep rt) [] all)"
    by (auto simp: dedupe_def)
  from byUrl_keyed [OF this] show "\<exists>i. latestNewest rt all i \<and> all ! i = v" by blast
next
  fix v :: item assume "dateParse rt (it_published v) = None"
  then show "ts rt v = 0" by (simp add: ts_def)
qed

lemma ts_example:
  "ts exampleRuntime (exampleItem t u ''2024-01-01T00:00:00.000Z'') = 1704067200000"
  "ts exampleRuntime (exampleItem t u ''2024-01-02T00:00:00.000Z'') = 1704153600000"
  "ts exampleRuntime (exampleItem t u ''2024-01-03T00:00:00.000Z'') = 1704240000000"
  "ts exampleRuntime (exampleItem t u ''2024-01-04T00:00:00.000Z'') = 1704326400000"
  "ts exampleRuntime (exampleItem t u ''2024-01-05T00:00:00.000Z'') = 1704412800000"
  "ts exampleRuntime (exampleItem t u ''yesterday'') = 0"
  by (simp_all add: ts_def exampleItem_def exampleRuntime_def exampleDateParse_def js_def)

lemma url_example: "it_url (exampleItem t u p) = Some (js u)"
  by (simp add: exampleItem_def)

theorem dedupe_one_per_url_witness:
  "dedupe exampleRuntime
     [exampleItem ''first'' ''https://example.com/a'' ''2024-01-02T00:00:00.000Z'',
      exampleItem ''other'' ''https://example.com/b'' ''yesterday'',
      exampleItem ''second'' ''https://example.com/a'' ''2024-01-02T00:00:00.000Z'',
      exampleItem ''third'' ''https://example.com/a'' ''2024-01-01T00:00:00.000Z'']
   = [exampleItem ''second'' ''https://example.com/a'' ''2024-01-02T00:00:00.000Z'',
      exampleItem ''other'' ''https://example.com/b'' ''yesterday'']
   \<and> (\<exists>i. latestNewest exampleRuntime
          [exampleItem ''first'' ''https://example.com/a'' ''2024-01-02T00:00:00.000Z'',
           exampleItem ''other'' ''https://example.com/b'' ''yesterday'',
           exampleItem ''second'' ''https://example.com/a'' ''2024-01-02T00:00:00.000Z'',
           exampleItem ''third'' ''https://example.com/a'' ''2024-01-01T00:00:00.000Z''] i
        \<and> [exampleItem ''first'' ''https://example.com/a'' ''2024-01-02T00:00:00.000Z'',
           exampleItem ''other'' ''https://example.com/b'' ''yesterday'',
           exampleItem ''second'' ''https://example.com/a'' ''2024-01-02T00:00:00.000Z'',
           exampleItem ''third'' ''https://example.com/a'' ''2024-01-01T00:00:00.000Z''] ! i
          = exampleItem ''second'' ''https://example.com/a'' ''2024-01-02T00:00:00.000Z'')"
proof -
  let ?a = "exampleItem ''first'' ''https://example.com/a'' ''2024-01-02T00:00:00.000Z''"
  let ?b = "exampleItem ''other'' ''https://example.com/b'' ''yesterday''"
  let ?c = "exampleItem ''second'' ''https://example.com/a'' ''2024-01-02T00:00:00.000Z''"
  let ?d = "exampleItem ''third'' ''https://example.com/a'' ''2024-01-01T00:00:00.000Z''"
  have ne: "js ''https://example.com/a'' \<noteq> js ''https://example.com/b''"
    by (simp add: js_def)
  have out: "dedupe exampleRuntime [?a, ?b, ?c, ?d] = [?c, ?b]"
    using ne by (simp add: dedupe_def dedupeStep_def Let_def url_example ts_example)
  from dedupe_one_per_url [of exampleRuntime "[?a, ?b, ?c, ?d]"]
  have "\<forall>v\<in>set (dedupe exampleRuntime [?a, ?b, ?c, ?d]).
          \<exists>i. latestNewest exampleRuntime [?a, ?b, ?c, ?d] i \<and> [?a, ?b, ?c, ?d] ! i = v"
    by blast
  then have "\<exists>i. latestNewest exampleRuntime [?a, ?b, ?c, ?d] i \<and> [?a, ?b, ?c, ?d] ! i = ?c"
    unfolding out by simp
  with out show ?thesis by blast
qed

section \<open>Ranking and limit\<close>

lemma insertBy_newestFirst:
  "insertBy (newestFirst rt) x ys = insort_key (\<lambda>i. - ts rt i) x ys"
  by (induction ys) (simp_all add: newestFirst_def)

lemma sortBy_newestFirst: "sortBy (newestFirst rt) xs = sort_key (\<lambda>i. - ts rt i) xs"
  by (induction xs) (simp_all add: sortBy_def sort_key_def insertBy_newestFirst)

lemma sortBy_sorted: "sorted_wrt (\<lambda>a b. ts rt b \<le> ts rt a) (sortBy (newestFirst rt) xs)"
proof -
  have "sorted (map (\<lambda>i. - ts rt i) (sort_key (\<lambda>i. - ts rt i) xs))"
    by (rule sorted_sort_key)
  then show ?thesis
    by (simp add: sortBy_newestFirst sorted_map)
qed

lemma sortBy_mset: "mset (sortBy (newestFirst rt) xs) = mset xs"
  by (simp add: sortBy_newestFirst)

lemma strict_of_distinct:
  "sorted_wrt (\<lambda>a b. f b \<le> (f a :: int)) xs \<Longrightarrow> distinct (map f xs)
     \<Longrightarrow> sorted_wrt (\<lambda>a b. f b < f a) xs"
proof (induction xs)
  case Nil
  show ?case by simp
next
  case (Cons a xs)
  have "f x < f a" if "x \<in> set xs" for x
  proof -
    have "f x \<le> f a" using Cons.prems(1) that by simp
    moreover have "f a \<notin> f ` set xs" using Cons.prems(2) by simp
    then have "f x \<noteq> f a" using that by (metis imageI)
    ultimately show ?thesis by simp
  qed
  moreover have "sorted_wrt (\<lambda>a b. f b < f a) xs"
    using Cons by simp
  ultimately show ?case by simp
qed

lemma sortBy_distinct:
  "distinct (map (ts rt) xs) \<Longrightarrow> distinct (map (ts rt) (sortBy (newestFirst rt) xs))"
proof -
  assume d: "distinct (map (ts rt) xs)"
  have "mset (map (ts rt) (sortBy (newestFirst rt) xs)) = mset (map (ts rt) xs)"
    by (simp add: sortBy_mset)
  then show ?thesis using d by (metis mset_eq_imp_distinct_iff)
qed

text \<open>
  C3. For a limit that is not negative, the items artifact is the deduplicated list
  sorted by timestamp, newest first, and cut to the limit: it has min(limit, n) items, so
  at most the limit; timestamps do not increase along it; what is left out is no newer
  than anything kept; and when the timestamps are distinct the order is strictly
  decreasing and everything left out is strictly older. With limit 3 and 5 items of
  distinct timestamps these are the 3 most recent, in descending order.
\<close>

theorem rank_newest_first:
  assumes "0 \<le> maxTotal"
  shows "length (rank rt maxTotal deduped) = min (nat maxTotal) (length deduped)
       \<and> int (length (rank rt maxTotal deduped)) \<le> maxTotal
       \<and> sorted_wrt (\<lambda>a b. ts rt b \<le> ts rt a) (rank rt maxTotal deduped)
       \<and> (\<exists>dropped. mset (rank rt maxTotal deduped) + mset dropped = mset deduped
             \<and> (\<forall>k\<in>set (rank rt maxTotal deduped). \<forall>d\<in>set dropped. ts rt d \<le> ts rt k)
             \<and> (distinct (map (ts rt) deduped)
                  \<longrightarrow> (\<forall>k\<in>set (rank rt maxTotal deduped). \<forall>d\<in>set dropped. ts rt d < ts rt k)))
       \<and> (distinct (map (ts rt) deduped)
            \<longrightarrow> sorted_wrt (\<lambda>a b. ts rt b < ts rt a) (rank rt maxTotal deduped))"
proof -
  define s where "s = sortBy (newestFirst rt) deduped"
  define n where "n = nat maxTotal"
  have r: "rank rt maxTotal deduped = take n s"
    using assms by (simp add: rank_def sliceTo_def s_def n_def)
  have srt: "sorted_wrt (\<lambda>a b. ts rt b \<le> ts rt a) s"
    unfolding s_def by (rule sortBy_sorted)
  have ms: "mset s = mset deduped"
    unfolding s_def by (rule sortBy_mset)
  have len: "length s = length deduped"
    using ms by (metis size_mset)
  have split: "s = take n s @ drop n s" by simp
  have l1: "length (take n s) = min (nat maxTotal) (length deduped)"
    by (simp add: len n_def)
  have l2: "int (length (take n s)) \<le> maxTotal"
    using assms by (simp add: n_def)
  have s1: "sorted_wrt (\<lambda>a b. ts rt b \<le> ts rt a) (take n s)"
    using srt by (rule sorted_wrt_take)
  have m1: "mset (take n s) + mset (drop n s) = mset deduped"
    using ms by (metis split mset_append)
  have o1: "\<forall>k\<in>set (take n s). \<forall>d\<in>set (drop n s). ts rt d \<le> ts rt k"
    using srt split by (metis sorted_wrt_append)
  have strict: "sorted_wrt (\<lambda>a b. ts rt b < ts rt a) s" if "distinct (map (ts rt) deduped)"
    using srt sortBy_distinct [OF that] unfolding s_def by (rule strict_of_distinct)
  have o2: "\<forall>k\<in>set (take n s). \<forall>d\<in>set (drop n s). ts rt d < ts rt k"
    if "distinct (map (ts rt) deduped)"
    using strict [OF that] split by (metis sorted_wrt_append)
  have s2: "sorted_wrt (\<lambda>a b. ts rt b < ts rt a) (take n s)"
    if "distinct (map (ts rt) deduped)"
    using strict [OF that] by (rule sorted_wrt_take)
  have ex: "\<exists>dropped. mset (take n s) + mset dropped = mset deduped
             \<and> (\<forall>k\<in>set (take n s). \<forall>d\<in>set dropped. ts rt d \<le> ts rt k)
             \<and> (distinct (map (ts rt) deduped)
                  \<longrightarrow> (\<forall>k\<in>set (take n s). \<forall>d\<in>set dropped. ts rt d < ts rt k))"
    using m1 o1 o2 by (intro exI [of _ "drop n s"]) blast
  show ?thesis
    unfolding r using l1 l2 s1 ex s2 by blast
qed

theorem rank_newest_first_witness:
  "(0::int) \<le> 3
   \<and> rank exampleRuntime 3
       [exampleItem ''c'' ''https://example.com/c'' ''2024-01-03T00:00:00.000Z'',
        exampleItem ''a'' ''https://example.com/a'' ''2024-01-01T00:00:00.000Z'',
        exampleItem ''e'' ''https://example.com/e'' ''2024-01-05T00:00:00.000Z'',
        exampleItem ''b'' ''https://example.com/b'' ''2024-01-02T00:00:00.000Z'',
        exampleItem ''d'' ''https://example.com/d'' ''2024-01-04T00:00:00.000Z'']
     = [exampleItem ''e'' ''https://example.com/e'' ''2024-01-05T00:00:00.000Z'',
        exampleItem ''d'' ''https://example.com/d'' ''2024-01-04T00:00:00.000Z'',
        exampleItem ''c'' ''https://example.com/c'' ''2024-01-03T00:00:00.000Z'']
   \<and> sorted_wrt (\<lambda>a b. ts exampleRuntime b \<le> ts exampleRuntime a)
       (rank exampleRuntime 3
         [exampleItem ''c'' ''https://example.com/c'' ''2024-01-03T00:00:00.000Z'',
          exampleItem ''a'' ''https://example.com/a'' ''2024-01-01T00:00:00.000Z'',
          exampleItem ''e'' ''https://example.com/e'' ''2024-01-05T00:00:00.000Z'',
          exampleItem ''b'' ''https://example.com/b'' ''2024-01-02T00:00:00.000Z'',
          exampleItem ''d'' ''https://example.com/d'' ''2024-01-04T00:00:00.000Z''])"
proof -
  let ?xs = "[exampleItem ''c'' ''https://example.com/c'' ''2024-01-03T00:00:00.000Z'',
        exampleItem ''a'' ''https://example.com/a'' ''2024-01-01T00:00:00.000Z'',
        exampleItem ''e'' ''https://example.com/e'' ''2024-01-05T00:00:00.000Z'',
        exampleItem ''b'' ''https://example.com/b'' ''2024-01-02T00:00:00.000Z'',
        exampleItem ''d'' ''https://example.com/d'' ''2024-01-04T00:00:00.000Z'']"
  have h: "(0::int) \<le> 3" by simp
  have out: "rank exampleRuntime 3 ?xs
     = [exampleItem ''e'' ''https://example.com/e'' ''2024-01-05T00:00:00.000Z'',
        exampleItem ''d'' ''https://example.com/d'' ''2024-01-04T00:00:00.000Z'',
        exampleItem ''c'' ''https://example.com/c'' ''2024-01-03T00:00:00.000Z'']"
    by (simp add: rank_def sortBy_def newestFirst_def ts_example sliceTo_def)
  from rank_newest_first [OF h, of exampleRuntime ?xs]
  have "sorted_wrt (\<lambda>a b. ts exampleRuntime b \<le> ts exampleRuntime a) (rank exampleRuntime 3 ?xs)"
    by blast
  with h out show ?thesis by blast
qed

section \<open>Truncation\<close>

lemma trimEnd_prefix: "prefix (trimEnd s) s"
proof -
  have "suffix (dropWhile isJsSpace (rev s)) (rev s)"
    by (rule suffix_dropWhile)
  then show ?thesis
    by (metis trimEnd_def rev_rev_ident suffix_to_prefix)
qed

lemma trimEnd_last: "trimEnd s = [] \<or> \<not> isJsSpace (last (trimEnd s))"
proof (cases "dropWhile isJsSpace (rev s)")
  case Nil
  then show ?thesis by (simp add: trimEnd_def)
next
  case (Cons a as)
  then have "\<not> isJsSpace a" by (metis hd_dropWhile list.sel(1) list.distinct(1))
  with Cons show ?thesis by (simp add: trimEnd_def)
qed

lemma trim_last: "trim s = [] \<or> \<not> isJsSpace (last (trim s))"
  unfolding trim_def by (rule trimEnd_last)

lemma sliceTo_prefix: "prefix (sliceTo xs e) xs"
  by (simp add: sliceTo_def take_is_prefix)

lemma sliceTo_length: "0 \<le> e \<Longrightarrow> int (length (sliceTo xs e)) \<le> e"
  by (simp add: sliceTo_def)

text \<open>
  C4, as the code has it. For a bound of at least 1, \<open>truncate\<close> returns the trimmed
  input unchanged when it has at most the bound of UTF-16 code units; otherwise it returns
  a prefix of the trimmed input of at most the bound minus one code units, without
  trailing whitespace, followed by the ellipsis marker. The marker is appended exactly
  when the trimmed input is longer than the bound. Lengths and the cut are counted in
  code units. The summary of a normalized item is the truncation to 280 of its cleaned
  raw summary.
\<close>

theorem truncate_by_code_units:
  assumes "1 \<le> maxLen"
  shows "\<exists>kept. prefix kept (trim s)
            \<and> (kept = [] \<or> \<not> isJsSpace (last kept))
            \<and> truncate s maxLen = kept @ (if maxLen < int (length (trim s)) then ellipsis else [])
            \<and> (int (length (trim s)) \<le> maxLen \<longrightarrow> kept = trim s)
            \<and> (maxLen < int (length (trim s)) \<longrightarrow> int (length kept) \<le> maxLen - 1)
            \<and> (\<exists>raw. it_summary (normalizeItem rt fd e sp now)
                        = truncate (stripHtml rt (Some raw)) 280)"
proof (cases "int (length (trim s)) \<le> maxLen")
  case True
  then have "truncate s maxLen = trim s" by (simp add: truncate_def Let_def)
  with True trim_last [of s] normalizeItem_summary [of rt fd e sp now] show ?thesis by auto
next
  case False
  let ?k = "trimEnd (sliceTo (trim s) (maxLen - 1))"
  have eq: "truncate s maxLen = ?k @ ellipsis"
    using False by (simp add: truncate_def Let_def)
  have p: "prefix ?k (trim s)"
    using trimEnd_prefix sliceTo_prefix prefix_order.order_trans by blast
  have "length ?k \<le> length (sliceTo (trim s) (maxLen - 1))"
    using trimEnd_prefix prefix_length_le by blast
  moreover have "int (length (sliceTo (trim s) (maxLen - 1))) \<le> maxLen - 1"
    using assms by (intro sliceTo_length) simp
  ultimately have len: "int (length ?k) \<le> maxLen - 1" by linarith
  have "\<exists>raw. it_summary (normalizeItem rt fd e sp now) = truncate (stripHtml rt (Some raw)) 280"
    using normalizeItem_summary [of rt fd e sp now] by blast
  then show ?thesis
    using False eq p len trimEnd_last [of "sliceTo (trim s) (maxLen - 1)"]
    by (intro exI [of _ ?k]) auto
qed

lemma isJsSpace_simps:
  "\<not> isJsSpace 0x61" "\<not> isJsSpace 0x62" "\<not> isJsSpace 0xD83D" "\<not> isJsSpace 0xDE00" "isJsSpace 0x20"
  by (simp_all add: isJsSpace_def)

text \<open>
  The cut can fall inside a surrogate pair: the input below is \<open>a\<close>, U+1F600 and
  \<open>b\<close>, well formed, and with the bound 3 the result keeps the high half of the
  pair alone and is longer than the bound.
\<close>

theorem truncate_counterexample:
  "wellFormedUtf16 [0x61, 0xD83D, 0xDE00, 0x62]
   \<and> truncate [0x61, 0xD83D, 0xDE00, 0x62] 3 = [0x61, 0xD83D] @ ellipsis
   \<and> \<not> wellFormedUtf16 (truncate [0x61, 0xD83D, 0xDE00, 0x62] 3)
   \<and> 3 < length (truncate [0x61, 0xD83D, 0xDE00, 0x62] 3)"
proof -
  have t: "truncate [0x61, 0xD83D, 0xDE00, 0x62] 3 = [0x61, 0xD83D] @ ellipsis"
    by (simp add: truncate_def trim_def trimStart_def trimEnd_def sliceTo_def isJsSpace_simps)
  show ?thesis
    unfolding t by (simp add: ellipsis_def isHighSurrogate_def isLowSurrogate_def)
qed

theorem truncate_by_code_units_witness:
  "(1::int) \<le> 3 \<and> truncate (js ''ab cdef'') 3 = js ''ab'' @ ellipsis
     \<and> truncate (js '' ab '') 3 = js ''ab''"
proof -
  have a: "truncate (js ''ab cdef'') 3 = js ''ab'' @ ellipsis"
    by (simp add: truncate_def trim_def trimStart_def trimEnd_def sliceTo_def isJsSpace_def js_def)
  have b: "truncate (js '' ab '') 3 = js ''ab''"
    by (simp add: truncate_def trim_def trimStart_def trimEnd_def sliceTo_def isJsSpace_def js_def)
  from truncate_by_code_units [of 3 "js ''ab cdef''"] a b show ?thesis by simp
qed

section \<open>Keyword filter\<close>

lemma includesStr_sublist: "includesStr h n \<longleftrightarrow> sublist n h"
  by (induction h) (simp_all add: sublist_Cons_right)

lemma containsAny_iff:
  "containsAny rt text (Some ns) \<longleftrightarrow>
     ns = [] \<or> (\<exists>n\<in>set ns. sublist (toLowerCase rt n) (toLowerCase rt text))"
  by (simp add: containsAny_def Let_def list_ex_iff includesStr_sublist)

lemma excludedByAny_iff:
  "excludedByAny rt text (Some ns) \<longleftrightarrow>
     ns \<noteq> [] \<and> (\<exists>n\<in>set ns. sublist (toLowerCase rt n) (toLowerCase rt text))"
  by (simp add: excludedByAny_def Let_def list_ex_iff includesStr_sublist)

lemma survives_iff:
  "survives rt include exclude n \<longleftrightarrow>
     truthy (it_url n) \<and> passesKeywords rt include exclude (it_title n @ js '' '' @ it_summary n)"
  by (simp add: survives_def Let_def)

text \<open>
  C5. An item's text passes the keyword filter if and only if it passes both checks: a
  non-empty include list must have a keyword whose lower-cased form occurs in the
  lower-cased text, and a non-empty exclude list must have none. An absent or an empty
  list constrains nothing. An item survives the loop when it has a URL and its title, a
  space and its summary pass this filter.
\<close>

theorem keyword_filter_both_checks:
  "(passesKeywords rt include exclude text \<longleftrightarrow>
     (\<forall>ns. include = Some ns \<and> ns \<noteq> []
         \<longrightarrow> (\<exists>n\<in>set ns. sublist (toLowerCase rt n) (toLowerCase rt text)))
   \<and> (\<forall>ns. exclude = Some ns \<and> ns \<noteq> []
         \<longrightarrow> \<not> (\<exists>n\<in>set ns. sublist (toLowerCase rt n) (toLowerCase rt text))))
   \<and> (survives rt include exclude n \<longleftrightarrow>
     truthy (it_url n) \<and> passesKeywords rt include exclude (it_title n @ js '' '' @ it_summary n))"
proof (rule conjI)
  show "survives rt include exclude n \<longleftrightarrow>
     truthy (it_url n) \<and> passesKeywords rt include exclude (it_title n @ js '' '' @ it_summary n)"
    by (rule survives_iff)
  show "passesKeywords rt include exclude text \<longleftrightarrow>
     (\<forall>ns. include = Some ns \<and> ns \<noteq> []
         \<longrightarrow> (\<exists>n\<in>set ns. sublist (toLowerCase rt n) (toLowerCase rt text)))
   \<and> (\<forall>ns. exclude = Some ns \<and> ns \<noteq> []
         \<longrightarrow> \<not> (\<exists>n\<in>set ns. sublist (toLowerCase rt n) (toLowerCase rt text)))"
  proof (cases "include"; cases exclude)
    fix a b assume "include = Some a" "exclude = Some b"
    then show ?thesis
      by (auto simp: passesKeywords_def listNonEmpty_def containsAny_iff excludedByAny_iff)
  qed (auto simp: passesKeywords_def listNonEmpty_def containsAny_iff excludedByAny_iff)
qed

lemma lower_ex:
  "asciiLower (js ''privacy'') = js ''privacy''"
  "asciiLower (js ''gdpr'') = js ''gdpr''"
  "asciiLower (js ''Privacy and GDPR rules'') = js ''privacy and gdpr rules''"
  "asciiLower (js ''New Privacy rules'') = js ''new privacy rules''"
  "asciiLower (js ''Football results'') = js ''football results''"
  by (simp_all add: asciiLower_def js_def)

theorem keyword_filter_both_checks_witness:
  "\<not> passesKeywords exampleRuntime (Some [js ''privacy'']) (Some [js ''gdpr''])
        (js ''Privacy and GDPR rules'')
   \<and> passesKeywords exampleRuntime (Some [js ''privacy'']) (Some [js ''gdpr''])
        (js ''New Privacy rules'')
   \<and> \<not> passesKeywords exampleRuntime (Some [js ''privacy'']) (Some [js ''gdpr''])
        (js ''Football results'')
   \<and> passesKeywords exampleRuntime None (Some []) (js ''Football results'')"
proof -
  have lc: "toLowerCase exampleRuntime = asciiLower" by (simp add: exampleRuntime_def)
  have a: "sublist (js ''gdpr'') (js ''privacy and gdpr rules'')"
    by (simp add: js_def sublist_code(3))
  have b: "sublist (js ''privacy'') (js ''new privacy rules'')"
    by (simp add: js_def sublist_code(3))
  have c: "\<not> sublist (js ''gdpr'') (js ''new privacy rules'')"
    by (simp add: js_def sublist_code(3))
  have d: "\<not> sublist (js ''privacy'') (js ''football results'')"
    by (simp add: js_def sublist_code(3))
  show ?thesis
    unfolding keyword_filter_both_checks [THEN conjunct1] lc
    using a b c d by (simp add: lower_ex)
qed

section \<open>URL cleaning\<close>

lemma hash_get_never_bare: "hash_get u \<noteq> [0x23]"
  by (simp add: hash_get_def split: option.splits)

lemma searchParams_delete_fragment: "u_fragment (searchParams_delete rt p u) = u_fragment u"
  by (simp add: searchParams_delete_def Let_def)

lemma foldl_delete_fragment:
  "u_fragment (foldl (\<lambda>u p. searchParams_delete rt p u) u ps) = u_fragment u"
  by (induction ps arbitrary: u) (simp_all add: searchParams_delete_fragment)

lemma cleanParsed_fragment: "u_fragment (cleanParsed rt u sp) = u_fragment u"
  by (simp add: cleanParsed_def Let_def hash_get_never_bare search_clear_def
      foldl_delete_fragment)

lemma searchParams_delete_params:
  "u_params (searchParams_delete rt p u) = filter (\<lambda>kv. fst kv \<noteq> p) (u_params u)"
  by (simp add: searchParams_delete_def Let_def)

lemma foldl_delete_params:
  "u_params (foldl (\<lambda>u p. searchParams_delete rt p u) u ps)
     = filter (\<lambda>kv. fst kv \<notin> set ps) (u_params u)"
proof (induction ps arbitrary: u)
  case Nil
  show ?case by simp
next
  case (Cons p ps)
  show ?case
    by (simp add: Cons.IH searchParams_delete_params conj_commute)
qed

lemma cleanParsed_params:
  "u_params (cleanParsed rt u sp) = filter (\<lambda>kv. fst kv \<notin> set sp) (u_params u)"
  by (simp add: cleanParsed_def Let_def hash_get_never_bare search_clear_def
      foldl_delete_params)

lemma cleanParsed_empty_query:
  "filter (\<lambda>kv. fst kv \<notin> set sp) (u_params u) = [] \<Longrightarrow> u_query (cleanParsed rt u sp) = None"
  by (simp add: cleanParsed_def Let_def hash_get_never_bare search_clear_def
      foldl_delete_params)

lemma cleanUrl_absent: "\<not> truthy raw \<Longrightarrow> cleanUrl rt raw sp = None"
  by (simp add: cleanUrl_def truthy_def split: option.splits)

lemma cleanUrl_unparsable:
  "truthy (Some raw) \<Longrightarrow> urlParse rt raw = None \<Longrightarrow> cleanUrl rt (Some raw) sp = Some raw"
  by (simp add: cleanUrl_def truthy_def)

lemma pickRawLink_link: "truthy (raw_link e) \<Longrightarrow> pickRawLink e = raw_link e"
  by (simp add: pickRawLink_def orElse_def)

lemma pickRawLink_guid:
  "\<not> truthy (raw_link e) \<Longrightarrow> truthy (raw_guid e) \<Longrightarrow> pickRawLink e = raw_guid e"
  by (simp add: pickRawLink_def orElse_def)

lemma pickRawLink_links:
  "\<not> truthy (raw_link e) \<Longrightarrow> \<not> truthy (raw_guid e) \<Longrightarrow> raw_links e = Some (x # xs)
     \<Longrightarrow> pickRawLink e = x"
  by (simp add: pickRawLink_def orElse_def)

lemma no_candidate_dropped:
  "\<not> truthy (pickRawLink e) \<Longrightarrow> \<not> survives rt inc exc (normalizeItem rt fd e sp now)"
  by (simp add: survives_def normalizeItem_url cleanUrl_absent truthy_def)

text \<open>
  C6, where the code departs from it. The getter of \<open>hash\<close> never returns a lone
  \<open>#\<close>, so the test of line 54 never succeeds and \<open>cleanUrl\<close> leaves the fragment of
  every URL as it was parsed. A link that ends in a bare \<open>#\<close> keeps it.
\<close>

theorem bare_fragment_not_cleared:
  "(\<forall>rt u sp. u_fragment (cleanParsed rt u sp) = u_fragment u)
   \<and> urlParse exampleRuntime (js ''https://example.com/a#'')
       = Some \<lparr>u_front = js ''https://example.com/a'', u_query = None, u_params = [],
               u_fragment = Some []\<rparr>
   \<and> cleanUrl exampleRuntime (Some (js ''https://example.com/a#'')) [js ''utm_source'']
       = Some (js ''https://example.com/a#'')"
proof (intro conjI allI)
  show "u_fragment (cleanParsed rt u sp) = u_fragment u" for rt u sp
    by (rule cleanParsed_fragment)
  show p: "urlParse exampleRuntime (js ''https://example.com/a#'')
       = Some \<lparr>u_front = js ''https://example.com/a'', u_query = None, u_params = [],
               u_fragment = Some []\<rparr>"
    by (simp add: exampleRuntime_def exampleUrlParse_def js_def)
  show "cleanUrl exampleRuntime (Some (js ''https://example.com/a#'')) [js ''utm_source'']
       = Some (js ''https://example.com/a#'')"
  proof -
    let ?u = "\<lparr>u_front = js ''https://example.com/a'', u_query = None, u_params = [],
               u_fragment = Some []\<rparr>"
    have c: "cleanParsed exampleRuntime ?u [js ''utm_source''] = ?u"
      by (simp add: cleanParsed_def searchParams_delete_def search_clear_def hash_get_def
          exampleRuntime_def Let_def)
    have ne: "js ''https://example.com/a#'' \<noteq> []" by (simp add: js_def)
    have s: "url_toString ?u = js ''https://example.com/a#''"
      by (simp add: url_toString_def js_def)
    show ?thesis
      by (simp add: cleanUrl_def p c s ne)
  qed
qed

section \<open>Failure of one feed\<close>

lemma feedStep_split:
  "feedStep rt dflt acc f = (fst acc @ feedItemsOf rt dflt f, snd acc @ feedErrorsOf f)"
  by (cases "snd f") (simp_all add: feedStep_def feedItemsOf_def feedErrorsOf_def)

lemma foldl_feedStep:
  "foldl (feedStep rt dflt) acc fs =
     (fst acc @ concat (map (feedItemsOf rt dflt) fs), snd acc @ concat (map feedErrorsOf fs))"
proof (induction fs arbitrary: acc)
  case Nil
  then show ?case by simp
next
  case (Cons f fs)
  have "foldl (feedStep rt dflt) acc (f # fs) = foldl (feedStep rt dflt) (feedStep rt dflt acc f) fs"
    by (simp only: foldl.simps)
  also have "\<dots> = (fst (feedStep rt dflt acc f) @ concat (map (feedItemsOf rt dflt) fs),
                    snd (feedStep rt dflt acc f) @ concat (map feedErrorsOf fs))"
    by (rule Cons.IH)
  also have "\<dots> = (fst acc @ concat (map (feedItemsOf rt dflt) (f # fs)),
                    snd acc @ concat (map feedErrorsOf (f # fs)))"
    by (simp add: feedStep_split [of rt dflt acc f])
  finally show ?case .
qed

lemma collect_concat:
  "collect rt dflt fs = (concat (map (feedItemsOf rt dflt) fs), concat (map feedErrorsOf fs))"
  by (simp add: collect_def foldl_feedStep)

text \<open>
  C7. A feed whose fetch or parse fails adds no item and exactly one error record, with
  its id, name, url and the error message, at its place in the error list. The items
  collected, and so the items of the final output, are those of the same run without that
  feed; and when both writes succeed the run leaves a complete pair of files.
\<close>

theorem failed_feed_isolated:
  "fst (collect rt dflt (fs1 @ (fd, Failed msg) # fs2)) = fst (collect rt dflt (fs1 @ fs2))
   \<and> snd (collect rt dflt (fs1 @ (fd, Failed msg) # fs2))
       = snd (collect rt dflt fs1)
         @ [\<lparr>fe_id = fd_id fd, fe_name = fd_name fd, fe_url = fd_url fd, fe_error = msg\<rparr>]
         @ snd (collect rt dflt fs2)
   \<and> fst (mainOutput rt dflt (fs1 @ (fd, Failed msg) # fs2) genAt)
       = fst (mainOutput rt dflt (fs1 @ fs2) genAt)
   \<and> run rt dflt (fs1 @ (fd, Failed msg) # fs2) genAt d Succeeds Succeeds
       = (\<lparr>newsFile = Some (Complete (fst (mainOutput rt dflt (fs1 @ fs2) genAt))),
           metaFile = Some (Complete
             \<lparr>generatedAt = genAt, feedCount = Suc (length fs1 + length fs2),
              itemCount = length (fst (mainOutput rt dflt (fs1 @ fs2) genAt)),
              errors = snd (collect rt dflt (fs1 @ (fd, Failed msg) # fs2))\<rparr>)\<rparr>, True)"
proof -
  let ?fs = "fs1 @ (fd, Failed msg) # fs2"
  have items: "fst (collect rt dflt ?fs) = fst (collect rt dflt (fs1 @ fs2))"
    by (simp add: collect_concat feedItemsOf_def)
  have errs: "snd (collect rt dflt ?fs)
       = snd (collect rt dflt fs1)
         @ [\<lparr>fe_id = fd_id fd, fe_name = fd_name fd, fe_url = fd_url fd, fe_error = msg\<rparr>]
         @ snd (collect rt dflt fs2)"
    by (simp add: collect_concat feedErrorsOf_def)
  have out: "fst (mainOutput rt dflt ?fs genAt) = fst (mainOutput rt dflt (fs1 @ fs2) genAt)"
    by (simp add: mainOutput_def Let_def items)
  have m: "snd (mainOutput rt dflt ?fs genAt)
      = \<lparr>generatedAt = genAt, feedCount = Suc (length fs1 + length fs2),
              itemCount = length (fst (mainOutput rt dflt (fs1 @ fs2) genAt)),
              errors = snd (collect rt dflt ?fs)\<rparr>"
    by (simp add: mainOutput_def Let_def items)
  have r: "run rt dflt ?fs genAt d Succeeds Succeeds
      = (\<lparr>newsFile = Some (Complete (fst (mainOutput rt dflt ?fs genAt))),
           metaFile = Some (Complete (snd (mainOutput rt dflt ?fs genAt)))\<rparr>, True)"
    by (simp add: run_def writeArtifacts_def writeNews_def writeMeta_def Let_def)
  have r': "run rt dflt ?fs genAt d Succeeds Succeeds
       = (\<lparr>newsFile = Some (Complete (fst (mainOutput rt dflt (fs1 @ fs2) genAt))),
           metaFile = Some (Complete
             \<lparr>generatedAt = genAt, feedCount = Suc (length fs1 + length fs2),
              itemCount = length (fst (mainOutput rt dflt (fs1 @ fs2) genAt)),
              errors = snd (collect rt dflt ?fs)\<rparr>)\<rparr>, True)"
    unfolding r m out ..
  show ?thesis
    by (intro conjI) (rule items, rule errs, rule out, rule r')
qed

theorem failed_feed_isolated_witness:
  "snd (collect exampleRuntime exampleDefaults
          [(exampleFeed ''a'', Parsed (Some [(linkEntry ''https://example.com/a'', js ''2024-01-01T00:00:00.000Z'')])),
           (exampleFeed ''b'', Failed (js ''timeout'')),
           (exampleFeed ''c'', Parsed None)])
     = [\<lparr>fe_id = js ''b'', fe_name = js ''b'', fe_url = js ''https://example.com/feed'',
         fe_error = js ''timeout''\<rparr>]
   \<and> fst (collect exampleRuntime exampleDefaults
          [(exampleFeed ''a'', Parsed (Some [(linkEntry ''https://example.com/a'', js ''2024-01-01T00:00:00.000Z'')])),
           (exampleFeed ''b'', Failed (js ''timeout'')),
           (exampleFeed ''c'', Parsed None)])
     = fst (collect exampleRuntime exampleDefaults
          [(exampleFeed ''a'', Parsed (Some [(linkEntry ''https://example.com/a'', js ''2024-01-01T00:00:00.000Z'')])),
           (exampleFeed ''c'', Parsed None)])"
proof -
  let ?a = "(exampleFeed ''a'', Parsed (Some [(linkEntry ''https://example.com/a'', js ''2024-01-01T00:00:00.000Z'')]))"
  let ?c = "(exampleFeed ''c'', Parsed None)"
  have e1: "snd (collect exampleRuntime exampleDefaults [?a]) = []"
    by (simp add: collect_concat feedErrorsOf_def)
  have e2: "snd (collect exampleRuntime exampleDefaults [?c]) = []"
    by (simp add: collect_concat feedErrorsOf_def)
  have f: "fd_id (exampleFeed ''b'') = js ''b''" "fd_name (exampleFeed ''b'') = js ''b''"
    "fd_url (exampleFeed ''b'') = js ''https://example.com/feed''"
    by (simp_all add: exampleFeed_def)
  from failed_feed_isolated [of exampleRuntime exampleDefaults "[?a]" "exampleFeed ''b''"
      "js ''timeout''" "[?c]" "[]" "\<lparr>newsFile = None, metaFile = None\<rparr>"]
  show ?thesis
    by (simp only: e1 e2 f append.simps)
qed

section \<open>Tag classifier\<close>

lemma tagLoop_filter:
  "tagLoop rs t acc = acc @ map fst (filter (\<lambda>r. re_test (snd r) t) rs)"
  by (induction rs arbitrary: acc) simp_all

lemma rules_distinct: "distinct (map fst rules)"
  by (simp add: rules_def js_def)

lemma computeTags_filter:
  "computeTags rt text = map fst (filter (\<lambda>r. re_test (snd r) (toLowerCase rt text)) rules)"
  by (simp add: computeTags_def Let_def tagLoop_filter)

lemma distinct_map_filter_count:
  assumes "distinct (map f xs)" "x \<in> set xs"
  shows "count_list (map f (filter P xs)) (f x) = (if P x then 1 else 0)"
  using assms
proof (induction xs)
  case Nil
  then show ?case by simp
next
  case (Cons y ys)
  show ?case
  proof (cases "x = y")
    case True
    have "f y \<notin> f ` set (filter P ys)" using Cons.prems(1) by auto
    then have "count_list (map f (filter P ys)) (f y) = 0"
      by (simp add: count_list_0_iff)
    with True show ?thesis by simp
  next
    case False
    with Cons.prems have xin: "x \<in> set ys" and d: "distinct (map f ys)" and ne: "f y \<noteq> f x"
      by auto
    with Cons.IH show ?thesis by simp
  qed
qed

text \<open>
  C8. The tag classifier returns the tag names of the rules whose pattern matches the
  lower-cased text, in the order of the rule table: the result has no duplicate, it is a
  subsequence of the table's tag names, and a rule's tag occurs once when the rule
  matches and not at all otherwise.
\<close>

theorem computeTags_rule_order:
  "computeTags rt text = map fst (filter (\<lambda>r. re_test (snd r) (toLowerCase rt text)) rules)
   \<and> distinct (computeTags rt text)
   \<and> subseq (computeTags rt text) (map fst rules)
   \<and> (\<forall>r \<in> set rules. count_list (computeTags rt text) (fst r)
          = (if re_test (snd r) (toLowerCase rt text) then 1 else 0))"
proof (intro conjI ballI)
  show "computeTags rt text = map fst (filter (\<lambda>r. re_test (snd r) (toLowerCase rt text)) rules)"
    by (rule computeTags_filter)
  show "distinct (computeTags rt text)"
    unfolding computeTags_filter using rules_distinct by (rule distinct_map_filter)
  show "subseq (computeTags rt text) (map fst rules)"
    unfolding computeTags_filter by (simp add: subseq_map)
  fix r assume "r \<in> set rules"
  then show "count_list (computeTags rt text) (fst r)
          = (if re_test (snd r) (toLowerCase rt text) then 1 else 0)"
    unfolding computeTags_filter using rules_distinct
    by (intro distinct_map_filter_count)
qed

theorem computeTags_rule_order_witness:
  "(js ''AI'', [bounded ''ai'', plain ''llm'', plain ''machine learning'', plain ''generative'']) \<in> set rules
   \<and> count_list (computeTags exampleRuntime (js ''AI Law'')) (js ''AI'') = 1
   \<and> computeTags exampleRuntime (js ''AI Law'') = [js ''AI'', js ''Policy'']"
proof -
  let ?r = "(js ''AI'', [bounded ''ai'', plain ''llm'', plain ''machine learning'', plain ''generative''])"
  have mem: "?r \<in> set rules" by (simp add: rules_def)
  have low: "toLowerCase exampleRuntime (js ''AI Law'') = js ''ai law''"
    by (simp add: exampleRuntime_def asciiLower_def js_def)
  have m: "re_test (snd ?r) (js ''ai law'')" by code_simp
  have out: "map fst (filter (\<lambda>r. re_test (snd r) (js ''ai law'')) rules) = [js ''AI'', js ''Policy'']"
    by code_simp
  from computeTags_rule_order [of exampleRuntime "js ''AI Law''"] mem m out
  show ?thesis by (auto simp: low)
qed

section \<open>Writing the two files\<close>

lemma run_both_succeed:
  "run rt dflt feeds genAt d Succeeds Succeeds
     = (\<lparr>newsFile = Some (Complete (fst (mainOutput rt dflt feeds genAt))),
         metaFile = Some (Complete (snd (mainOutput rt dflt feeds genAt)))\<rparr>, True)"
  by (simp add: run_def writeArtifacts_def writeNews_def writeMeta_def Let_def)

lemma run_first_fails:
  "out1 \<noteq> Succeeds \<Longrightarrow>
     run rt dflt feeds genAt d out1 out2 = (writeNews d (fst (mainOutput rt dflt feeds genAt)) out1, False)"
  by (simp add: run_def writeArtifacts_def Let_def)

lemma run_second:
  "run rt dflt feeds genAt d Succeeds out2
     = (writeMeta (d\<lparr>newsFile := Some (Complete (fst (mainOutput rt dflt feeds genAt)))\<rparr>)
          (snd (mainOutput rt dflt feeds genAt)) out2, out2 = Succeeds)"
  by (simp add: run_def writeArtifacts_def writeNews_def Let_def)

text \<open>
  C9, as the code has it. The two files are written one after the other, the items first.
  When both writes succeed, both files hold the output of this run. When the first write
  fails the second is not attempted and the metadata file is untouched; when it fails
  before touching its file, neither file changes. The run gets past both writes exactly
  when both succeed.
\<close>

theorem writes_in_sequence:
  assumes "run rt dflt feeds genAt d out1 out2 = (d', ok)"
  shows "(out1 = Succeeds \<and> out2 = Succeeds \<longrightarrow>
            ok \<and> newsFile d' = Some (Complete (fst (mainOutput rt dflt feeds genAt)))
               \<and> metaFile d' = Some (Complete (snd (mainOutput rt dflt feeds genAt))))
       \<and> (out1 = FailsBefore \<longrightarrow> \<not> ok \<and> d' = d)
       \<and> (out1 \<noteq> Succeeds \<longrightarrow> \<not> ok \<and> metaFile d' = metaFile d)
       \<and> (out1 = Succeeds \<longrightarrow> newsFile d' = Some (Complete (fst (mainOutput rt dflt feeds genAt))))
       \<and> (ok \<longleftrightarrow> out1 = Succeeds \<and> out2 = Succeeds)"
proof (cases "out1 = Succeeds")
  case True
  from assms have d': "d' = writeMeta (d\<lparr>newsFile := Some (Complete (fst (mainOutput rt dflt feeds genAt)))\<rparr>)
          (snd (mainOutput rt dflt feeds genAt)) out2" and ok: "ok = (out2 = Succeeds)"
    unfolding True run_second by simp_all
  show ?thesis
    using True by (cases out2) (simp_all add: d' ok writeMeta_def)
next
  case False
  from assms have d': "d' = writeNews d (fst (mainOutput rt dflt feeds genAt)) out1" and ok: "\<not> ok"
    unfolding run_first_fails [OF False] by simp_all
  show ?thesis
    using False by (cases out1) (simp_all add: d' ok writeNews_def)
qed

lemma mainOutput_one_failed:
  "mainOutput rt dflt [(fd, Failed msg)] genAt
     = ([], \<lparr>generatedAt = genAt, feedCount = 1, itemCount = 0,
              errors = [\<lparr>fe_id = fd_id fd, fe_name = fd_name fd, fe_url = fd_url fd,
                         fe_error = msg\<rparr>]\<rparr>)"
  by (simp add: mainOutput_def Let_def collect_def feedStep_def dedupe_def rank_def sortBy_def
      sliceTo_def)

text \<open>
  The pair is not atomic. With the files of an earlier run on disk, a run whose second
  write fails leaves the new items file beside the old metadata file; and a first write
  that fails midway leaves a cut-short items file.
\<close>

theorem pair_not_atomic_counterexample:
  "run exampleRuntime exampleDefaults [(exampleFeed ''a'', Failed (js ''HTTP 500 Internal Server Error''))]
      (js ''2024-01-03T00:00:00.000Z'') oldDisk Succeeds FailsBefore
     = (\<lparr>newsFile = Some (Complete []), metaFile = metaFile oldDisk\<rparr>, False)
   \<and> newsFile oldDisk \<noteq> Some (Complete [])
   \<and> metaFile oldDisk = Some (Complete \<lparr>generatedAt = js ''2024-01-02T00:00:00.000Z'',
        feedCount = 1, itemCount = 1, errors = []\<rparr>)
   \<and> fst (run exampleRuntime exampleDefaults [(exampleFeed ''a'', Failed (js ''HTTP 500 Internal Server Error''))]
      (js ''2024-01-03T00:00:00.000Z'') oldDisk FailsMidway Succeeds)
     = \<lparr>newsFile = Some Truncated, metaFile = metaFile oldDisk\<rparr>"
  by (simp add: run_second run_first_fails mainOutput_one_failed writeMeta_def writeNews_def
      oldDisk_def)

theorem writes_in_sequence_witness:
  "run exampleRuntime exampleDefaults [(exampleFeed ''a'', Failed (js ''HTTP 500 Internal Server Error''))]
      (js ''2024-01-03T00:00:00.000Z'') oldDisk Succeeds Succeeds
     = (\<lparr>newsFile = Some (Complete []),
         metaFile = Some (Complete \<lparr>generatedAt = js ''2024-01-03T00:00:00.000Z'', feedCount = 1,
           itemCount = 0,
           errors = [\<lparr>fe_id = js ''a'', fe_name = js ''a'', fe_url = js ''https://example.com/feed'',
                      fe_error = js ''HTTP 500 Internal Server Error''\<rparr>]\<rparr>)\<rparr>, True)
   \<and> run exampleRuntime exampleDefaults [(exampleFeed ''a'', Failed (js ''HTTP 500 Internal Server Error''))]
      (js ''2024-01-03T00:00:00.000Z'') oldDisk FailsBefore Succeeds = (oldDisk, False)"
proof -
  let ?feeds = "[(exampleFeed ''a'', Failed (js ''HTTP 500 Internal Server Error''))]"
  let ?g = "js ''2024-01-03T00:00:00.000Z''"
  obtain d1 ok1 where r1: "run exampleRuntime exampleDefaults ?feeds ?g oldDisk Succeeds Succeeds = (d1, ok1)"
    by (cases "run exampleRuntime exampleDefaults ?feeds ?g oldDisk Succeeds Succeeds")
  obtain d2 ok2 where r2: "run exampleRuntime exampleDefaults ?feeds ?g oldDisk FailsBefore Succeeds = (d2, ok2)"
    by (cases "run exampleRuntime exampleDefaults ?feeds ?g oldDisk FailsBefore Succeeds")
  from writes_in_sequence [OF r1]
  have a: "ok1" "newsFile d1 = Some (Complete [])"
    "metaFile d1 = Some (Complete \<lparr>generatedAt = ?g, feedCount = 1, itemCount = 0,
           errors = [\<lparr>fe_id = js ''a'', fe_name = js ''a'', fe_url = js ''https://example.com/feed'',
                      fe_error = js ''HTTP 500 Internal Server Error''\<rparr>]\<rparr>)"
    by (simp_all add: mainOutput_one_failed exampleFeed_def)
  from writes_in_sequence [OF r2] have b: "\<not> ok2" "d2 = oldDisk" by simp_all
  have d1: "d1 = \<lparr>newsFile = newsFile d1, metaFile = metaFile d1\<rparr>" by simp
  show ?thesis
    unfolding r1 r2 using a b d1 by simp
qed

section \<open>Per-feed cap\<close>

lemma normalizeLoop_filter:
  "normalizeLoop rt fd sp inc exc es acc =
     acc @ filter (survives rt inc exc) (map (\<lambda>e. normalizeItem rt fd (fst e) sp (snd e)) es)"
proof (induction es arbitrary: acc)
  case Nil
  show ?case by simp
next
  case (Cons e es)
  show ?case
    by (simp only: normalizeLoop.simps Let_def Cons.IH list.map filter.simps append_assoc
        append.simps split: if_split) simp
qed

lemma sliceTo_take: "0 \<le> e \<Longrightarrow> sliceTo xs e = take (nat e) xs"
  by (simp add: sliceTo_def)

text \<open>
  C10. The per-feed cap (the feed's own, else the default), when it is not negative, cuts
  the raw entries before anything else: a feed adds exactly the entries among its first
  cap ones that normalize to an item with a URL and pass the keyword filter, so entries
  beyond the cap change nothing, and a feed adds at most cap items.
\<close>

theorem cap_before_filtering:
  assumes "cap = (case fd_maxItemsPerFeed fd of Some m \<Rightarrow> m | None \<Rightarrow> maxItemsPerFeed dflt)"
      and "0 \<le> cap"
  shows "feedItems rt dflt fd (Some items)
           = filter (survives rt (feedInclude fd) (feedExclude fd))
               (map (\<lambda>e. normalizeItem rt fd (fst e) (stripUrlParams dflt) (snd e))
                  (take (nat cap) items))
         \<and> feedItems rt dflt fd (Some items) = feedItems rt dflt fd (Some (take (nat cap) items))
         \<and> int (length (feedItems rt dflt fd (Some items))) \<le> cap"
proof -
  have a: "feedItems rt dflt fd (Some xs)
           = filter (survives rt (feedInclude fd) (feedExclude fd))
               (map (\<lambda>e. normalizeItem rt fd (fst e) (stripUrlParams dflt) (snd e))
                  (take (nat cap) xs))" for xs
  proof -
    have "feedItems rt dflt fd (Some xs)
            = normalizeLoop rt fd (stripUrlParams dflt) (feedInclude fd) (feedExclude fd)
                (sliceTo xs cap) []"
      unfolding feedItems_def Let_def assms(1) by simp
    also have "sliceTo xs cap = take (nat cap) xs"
      using assms(2) by (rule sliceTo_take)
    finally show ?thesis
      by (simp only: normalizeLoop_filter append.simps)
  qed
  have "length (feedItems rt dflt fd (Some items))
          \<le> length (map (\<lambda>e. normalizeItem rt fd (fst e) (stripUrlParams dflt) (snd e))
                      (take (nat cap) items))"
    unfolding a by (rule length_filter_le)
  also have "\<dots> \<le> nat cap" by simp
  finally have c: "int (length (feedItems rt dflt fd (Some items))) \<le> cap"
    using assms(2) by linarith
  have b: "feedItems rt dflt fd (Some items) = feedItems rt dflt fd (Some (take (nat cap) items))"
    unfolding a by simp
  show ?thesis
    by (intro conjI) (rule a, rule b, rule c)
qed

theorem cap_before_filtering_witness:
  "(1::int) = (case fd_maxItemsPerFeed ((exampleFeed ''a'')\<lparr>fd_maxItemsPerFeed := Some 1\<rparr>) of
                 Some m \<Rightarrow> m | None \<Rightarrow> maxItemsPerFeed exampleDefaults)
   \<and> (0::int) \<le> 1
   \<and> feedItems exampleRuntime exampleDefaults ((exampleFeed ''a'')\<lparr>fd_maxItemsPerFeed := Some 1\<rparr>)
        (Some [(emptyEntry, js ''2024-01-01T00:00:00.000Z''),
               (linkEntry ''https://example.com/a'', js ''2024-01-01T00:00:00.000Z'')]) = []
   \<and> feedItems exampleRuntime exampleDefaults ((exampleFeed ''a'')\<lparr>fd_maxItemsPerFeed := Some 1\<rparr>)
        (Some [(linkEntry ''https://example.com/a'', js ''2024-01-01T00:00:00.000Z'')]) \<noteq> []"
proof -
  let ?fd = "(exampleFeed ''a'')\<lparr>fd_maxItemsPerFeed := Some 1\<rparr>"
  let ?now = "js ''2024-01-01T00:00:00.000Z''"
  have cap: "(1::int) = (case fd_maxItemsPerFeed ?fd of Some m \<Rightarrow> m
                         | None \<Rightarrow> maxItemsPerFeed exampleDefaults)"
    by simp
  have kw: "feedInclude ?fd = None" "feedExclude ?fd = None"
    by (simp_all add: feedInclude_def feedExclude_def exampleFeed_def)
  have sp: "stripUrlParams exampleDefaults = [js ''utm_source'']"
    by (simp add: exampleDefaults_def)
  have u0: "it_url (normalizeItem exampleRuntime ?fd emptyEntry [js ''utm_source''] ?now) = None"
    by (simp add: normalizeItem_url pickRawLink_def emptyEntry_def orElse_def truthy_def
        cleanUrl_def)
  have u1: "it_url (normalizeItem exampleRuntime ?fd (linkEntry ''https://example.com/a'')
                      [js ''utm_source''] ?now) = Some (js ''https://example.com/a'')"
    by (simp add: normalizeItem_url pickRawLink_def linkEntry_def emptyEntry_def orElse_def
        truthy_def ex2)
  have s0: "\<not> survives exampleRuntime None None
              (normalizeItem exampleRuntime ?fd emptyEntry [js ''utm_source''] ?now)"
    by (simp add: survives_iff u0 truthy_def)
  have s1: "survives exampleRuntime None None
              (normalizeItem exampleRuntime ?fd (linkEntry ''https://example.com/a'')
                 [js ''utm_source''] ?now)"
    by (simp add: survives_iff u1 truthy_def passesKeywords_def listNonEmpty_def)
  have a: "feedItems exampleRuntime exampleDefaults ?fd
             (Some [(emptyEntry, ?now), (linkEntry ''https://example.com/a'', ?now)]) = []"
    using cap_before_filtering [OF cap, of exampleRuntime
        "[(emptyEntry, ?now), (linkEntry ''https://example.com/a'', ?now)]"] s0
    by (simp add: kw sp)
  have b: "feedItems exampleRuntime exampleDefaults ?fd
             (Some [(linkEntry ''https://example.com/a'', ?now)]) \<noteq> []"
    using cap_before_filtering [OF cap, of exampleRuntime
        "[(linkEntry ''https://example.com/a'', ?now)]"] s1
    by (simp add: kw sp)
  show ?thesis using cap a b by simp
qed

end
